theory Spec2Isabelle
  imports Main "HOL-Library.Word"
begin

unbundle bit_operations_syntax

section \<open>Pool/splay engine: data model\<close>

text \<open>
  The pool allocator runtime (PoolAllocatorBitMask.cpp) casts every pointer to
  \<open>unsigned\<close>, so an address is a 32-bit word and \<open>NULL\<close> is \<open>0\<close>. Pointer
  comparison and \<open>(char*)S + len\<close> are unsigned word comparison and addition.
\<close>

type_synonym ptr = "32 word"

text \<open>One record of a splay index: start address, length in bytes, opaque tag.\<close>

type_synonym interval = "ptr \<times> 32 word \<times> ptr"

type_synonym splay = "interval list"

text \<open>
  Modelled from the spec: the interval splay index (\<open>adl_splay_insert\<close>,
  \<open>adl_splay_delete\<close>, \<open>adl_splay_retrieve\<close>; declared in adl_splay.h, whose
  implementation is not among the sources). The spec describes a tree keyed by the
  half-open interval \<open>[start, start+len)\<close> with an attached tag, where \<open>insert\<close>
  adds a record, \<open>delete(start)\<close> removes the record that starts at the key and
  \<open>retrieve\<close> locates the interval containing the key and yields its start, length and
  tag, or fails. The index is kept as the list of its records, newest first; the tree
  shape and the splaying are not observable through these three operations.
\<close>

definition covers :: "interval \<Rightarrow> ptr \<Rightarrow> bool" where
  "covers r k = (case r of (s, l, t) \<Rightarrow> unat s \<le> unat k \<and> unat k < unat s + unat l)"

text \<open>Modelled from the spec: \<open>insert(start, len, tag)\<close> adds the record.\<close>

definition adl_splay_insert :: "splay \<Rightarrow> ptr \<Rightarrow> 32 word \<Rightarrow> ptr \<Rightarrow> splay" where
  "adl_splay_insert tree k l t = (k, l, t) # tree"

text \<open>Modelled from the spec: \<open>delete(start)\<close> removes the record that starts at the
  key.\<close>

definition adl_splay_delete :: "splay \<Rightarrow> ptr \<Rightarrow> splay" where
  "adl_splay_delete tree k = filter (\<lambda>r. fst r \<noteq> k) tree"

text \<open>Modelled from the spec: \<open>retrieve\<close> locates the interval containing the key,
  if there is one.\<close>

definition adl_splay_retrieve :: "splay \<Rightarrow> ptr \<Rightarrow> interval option" where
  "adl_splay_retrieve tree k = find (\<lambda>r. covers r k) tree"

text \<open>
  The C interface of \<open>adl_splay_retrieve\<close> returns an \<open>int\<close> and writes the start,
  the length and the tag through its pointer arguments only when it succeeds. The
  callers initialise those variables first; \<open>splay_find\<close> gives the four values the
  caller holds after the call: the flag \<open>fs\<close>, then \<open>S\<close>, \<open>len\<close> and \<open>tag\<close>.
\<close>

definition splay_find :: "splay \<Rightarrow> ptr \<Rightarrow> 32 word \<Rightarrow> ptr \<Rightarrow> bool \<times> ptr \<times> 32 word \<times> ptr" where
  "splay_find tree k len0 tag0 =
     (case adl_splay_retrieve tree k of
        None \<Rightarrow> (False, k, len0, tag0)
      | Some (s, l, t) \<Rightarrow> (True, s, l, t))"

text \<open>The fields of the pool descriptor that the checking primitives touch.\<close>

record PoolTy =
  NodeSize :: "32 word"
  Objects :: splay
  OOB :: splay
  DPTree :: splay

text \<open>What the runtime writes to \<open>stderr\<close>, one constructor per format string.\<close>

datatype msg =
    Poolcheck_failed
  | PoolcheckUI_failed
  | Boundscheck_rewrite
  | Boundscheck_out_of_rewrite_ptrs
  | Boundscheck_failed_out_of_object
  | Boundscheck_failed_no_object
  | Boundscheckui_rewrite
  | Boundscheckui_out_of_rewrite_ptrs
  | Boundscheckui_failed_out_of_object
  | GetActualValue_failure
  | Poolregister_log
  | Poolunregister_log
  | Funccheck_failed

text \<open>
  The process-wide state: the \<open>stderr\<close> stream, the static rewrite cursor
  \<open>invalidptr\<close>, the global index \<open>ExternalObjects\<close>, and the bounds
  \<open>InvalidLower\<close> and \<open>InvalidUpper\<close> of the reserved region. The last two are
  \<open>extern\<close> variables whose definition is not among the sources, so they are
  parameters of the model.
\<close>

record runtime =
  stderr :: "msg list"
  invalidptr :: ptr
  ExternalObjects :: splay
  InvalidLower :: ptr
  InvalidUpper :: ptr

text \<open>
  A call either returns a value, ends the process with \<open>abort()\<close>, or leaves defined
  behaviour (\<open>va_arg\<close> past the arguments that were passed, \<open>memcpy\<close> on regions
  that overlap).
\<close>

datatype 'a outcome = Return 'a | Abort | Undefined

text \<open>\<open>static unsigned logregs = 0\<close> is never assigned.\<close>

definition logregs :: bool where
  "logregs = False"

definition fprintf :: "msg \<Rightarrow> runtime \<Rightarrow> runtime" where
  "fprintf m rt = rt\<lparr>stderr := stderr rt @ [m]\<rparr>"

section \<open>Memory functions of the C library\<close>

text \<open>
  Memory is a function from addresses, of either width, to bytes.
  \<open>memset(s, c, n)\<close> writes \<open>c\<close> to the \<open>n\<close> bytes from \<open>s\<close> on.
\<close>

definition memset :: "('a::len word \<Rightarrow> 8 word) \<Rightarrow> 'a word \<Rightarrow> 8 word \<Rightarrow> nat \<Rightarrow> 'a word \<Rightarrow> 8 word" where
  "memset m s c n = (\<lambda>a. if unat (a - s) < n then c else m a)"

text \<open>
  \<open>memcpy(dst, src, n)\<close> is defined only when the \<open>n\<close> bytes from \<open>dst\<close> and the
  \<open>n\<close> bytes from \<open>src\<close> share no address; two such regions share one exactly when
  one of them starts inside the other. On regions that overlap the call is undefined and
  the result is \<open>None\<close>. Otherwise the \<open>n\<close> bytes from \<open>dst\<close> on take the values
  of the \<open>n\<close> bytes from \<open>src\<close> on, and every other byte stays.
\<close>

definition regions_overlap :: "'a::len word \<Rightarrow> 'a word \<Rightarrow> nat \<Rightarrow> bool" where
  "regions_overlap dst src n = (unat (src - dst) < n \<or> unat (dst - src) < n)"

definition copy_bytes :: "('a::len word \<Rightarrow> 8 word) \<Rightarrow> 'a word \<Rightarrow> 'a word \<Rightarrow> nat \<Rightarrow> 'a word \<Rightarrow> 8 word" where
  "copy_bytes m dst src n = (\<lambda>a. if unat (a - dst) < n then m (src + (a - dst)) else m a)"

definition memcpy :: "('a::len word \<Rightarrow> 8 word) \<Rightarrow> 'a word \<Rightarrow> 'a word \<Rightarrow> nat \<Rightarrow> ('a word \<Rightarrow> 8 word) option" where
  "memcpy m dst src n =
     (if regions_overlap dst src n then None else Some (copy_bytes m dst src n))"

section \<open>Pool/splay engine: registration and checks\<close>

text \<open>
  A pool handle is a pointer to a descriptor: \<open>None\<close> is the \<open>NULL\<close> handle,
  \<open>Some P\<close> a handle to the descriptor \<open>P\<close>. A function that updates the descriptor
  returns the new one.
\<close>

definition poolregister :: "runtime \<Rightarrow> PoolTy option \<Rightarrow> ptr \<Rightarrow> 32 word \<Rightarrow> runtime \<times> PoolTy option" where
  "poolregister rt Pool allocaptr NumBytes =
     (case Pool of
        None \<Rightarrow> (rt, None)
      | Some P \<Rightarrow>
          (let P1 = P\<lparr>Objects := adl_splay_insert (Objects P) allocaptr NumBytes 0\<rparr>
           in (if logregs then fprintf Poolregister_log rt else rt, Some P1)))"

definition poolunregister :: "runtime \<Rightarrow> PoolTy option \<Rightarrow> ptr \<Rightarrow> runtime \<times> PoolTy option" where
  "poolunregister rt Pool allocaptr =
     (case Pool of
        None \<Rightarrow> (rt, None)
      | Some P \<Rightarrow>
          (let P1 = P\<lparr>Objects := adl_splay_delete (Objects P) allocaptr\<rparr>
           in (if logregs then fprintf Poolunregister_log rt else rt, Some P1)))"

definition poolcheck :: "runtime \<Rightarrow> PoolTy option \<Rightarrow> ptr \<Rightarrow> unit outcome \<times> runtime" where
  "poolcheck rt Pool Node =
     (case Pool of
        None \<Rightarrow> (Return (), rt)
      | Some P \<Rightarrow>
          (case splay_find (Objects P) Node 0 0 of (fs, S, len, t) \<Rightarrow>
             if fs \<and> S \<le> Node \<and> S + len > Node then (Return (), rt)
             else (Abort, fprintf Poolcheck_failed rt)))"

definition poolcheckui :: "runtime \<Rightarrow> PoolTy option \<Rightarrow> ptr \<Rightarrow> unit outcome \<times> runtime" where
  "poolcheckui rt Pool Node =
     (case Pool of
        None \<Rightarrow> (Return (), rt)
      | Some P \<Rightarrow>
          (case splay_find (Objects P) Node 0 0 of (fs, S, len, t) \<Rightarrow>
             if fs \<and> S \<le> Node \<and> S + len > Node then (Return (), rt)
             else
               (case splay_find (ExternalObjects rt) Node 0 0 of (fs, S, len, t) \<Rightarrow>
                  if fs \<and> S \<le> Node \<and> S + len > Node then (Return (), rt)
                  else (Return (), fprintf PoolcheckUI_failed rt))))"

section \<open>Pool/splay engine: bounds checks and rewrite pointers\<close>

text \<open>
  \<open>boundscheck\<close> and \<open>boundscheckui\<close> contain the same block for a destination
  that is one past the end of the source's object: an optional log line, the cursor
  \<open>invalidptr\<close> started at \<open>InvalidLower\<close> when it is still 0 and then incremented,
  the test \<open>(unsigned)P & ~(InvalidUpper - 1)\<close>, and either the message and
  \<open>return Dest\<close> (the \<open>abort()\<close> there is under \<open>#if 0\<close>) or the insertion of
  \<open>(P, 1, Dest)\<close> into the pool's \<open>OOB\<close> index and \<open>return invalidptr\<close>.
  \<open>rewrite_ptr\<close> is that block, with the two messages as parameters.
\<close>

definition rewrite_ptr :: "msg \<Rightarrow> msg \<Rightarrow> runtime \<Rightarrow> PoolTy \<Rightarrow> ptr \<Rightarrow> ptr outcome \<times> runtime \<times> PoolTy" where
  "rewrite_ptr mlog mout rt Pool Dest =
     (let rt1 = (if logregs then fprintf mlog rt else rt);
          rt2 = (if invalidptr rt1 = 0 then rt1\<lparr>invalidptr := InvalidLower rt1\<rparr> else rt1);
          rt3 = rt2\<lparr>invalidptr := invalidptr rt2 + 1\<rparr>;
          P = invalidptr rt3
      in if P AND NOT (InvalidUpper rt3 - 1) \<noteq> 0
         then (Return Dest, fprintf mout rt3, Pool)
         else (Return (invalidptr rt3), rt3,
               Pool\<lparr>OOB := adl_splay_insert (OOB Pool) P 1 Dest\<rparr>))"

text \<open>
  \<open>boundscheck\<close> dereferences its pool handle without a test, so it takes a
  descriptor.
\<close>

definition boundscheck :: "runtime \<Rightarrow> PoolTy \<Rightarrow> ptr \<Rightarrow> ptr \<Rightarrow> ptr outcome \<times> runtime \<times> PoolTy" where
  "boundscheck rt Pool Source Dest =
     (case splay_find (Objects Pool) Source 0 0 of (fs, S, len, t) \<Rightarrow>
        if fs \<and> S \<le> Dest \<and> S + len > Dest then (Return Dest, rt, Pool)
        else if fs \<and> Dest = S + len
        then rewrite_ptr Boundscheck_rewrite Boundscheck_out_of_rewrite_ptrs rt Pool Dest
        else if fs then (Abort, fprintf Boundscheck_failed_out_of_object rt, Pool)
        else (Abort, fprintf Boundscheck_failed_no_object rt, Pool))"

definition boundscheckui :: "runtime \<Rightarrow> PoolTy \<Rightarrow> ptr \<Rightarrow> ptr \<Rightarrow> ptr outcome \<times> runtime \<times> PoolTy" where
  "boundscheckui rt Pool Source Dest =
     (case splay_find (Objects Pool) Source 0 0 of (fs, S, len, t) \<Rightarrow>
        if fs \<and> (S \<le> Dest \<and> S + len > Dest) then (Return Dest, rt, Pool)
        else if fs \<and> Dest = S + len
        then rewrite_ptr Boundscheckui_rewrite Boundscheckui_out_of_rewrite_ptrs rt Pool Dest
        else if Source = 0 then (Abort, fprintf Boundscheck_failed_out_of_object rt, Pool)
        else
          (case splay_find (ExternalObjects rt) Source 0 0 of (fs, S, len, t) \<Rightarrow>
             if fs then
               (if S \<le> Dest \<and> S + len > Dest then (Return Dest, rt, Pool)
                else (Return Dest, fprintf Boundscheckui_failed_out_of_object rt, Pool))
             else (Return Dest, rt, Pool)))"

definition pchk_getActualValue :: "runtime \<Rightarrow> PoolTy \<Rightarrow> ptr \<Rightarrow> ptr outcome \<times> runtime" where
  "pchk_getActualValue rt Pool src =
     (if src \<le> InvalidLower rt then (Return src, rt)
      else if src AND NOT (InvalidUpper rt - 1) \<noteq> 0 then (Return src, rt)
      else
        (case splay_find (OOB Pool) src 0 0 of (fs, S, len, t) \<Rightarrow>
           if fs then (Return t, rt) else (Abort, fprintf GetActualValue_failure rt)))"

text \<open>
  The spec's words for an exhausted cursor, to compare with the code: a bounds violation
  falls back to the true pointer in permissive mode and aborts in strict mode.
\<close>

definition spec_exhausted_result :: "bool \<Rightarrow> ptr \<Rightarrow> ptr outcome" where
  "spec_exhausted_result strict dst = (if strict then Abort else Return dst)"

section \<open>Pool/splay engine: reallocation\<close>

text \<open>
  \<open>poolrealloc\<close> calls \<open>poolalloc\<close> and \<open>poolfree\<close> and copies with
  \<open>memcpy\<close>. The two callees run the slab lists and the page manager
  (\<open>AllocatePage\<close>, \<open>RemapObject\<close>, \<open>ProtectShadowPage\<close>, which are not among the
  sources), so they are parameters here: each takes the world, the pool handle and its
  argument, and gives an outcome and the new world. The world is the program's memory
  and whatever state the allocator keeps.
\<close>

record 'w pool_world =
  memory :: "ptr \<Rightarrow> 8 word"
  allocator :: 'w

definition poolrealloc ::
    "('w pool_world \<Rightarrow> 'p \<Rightarrow> 32 word \<Rightarrow> ptr outcome \<times> 'w pool_world) \<Rightarrow>
     ('w pool_world \<Rightarrow> 'p \<Rightarrow> ptr \<Rightarrow> unit outcome \<times> 'w pool_world) \<Rightarrow>
     'w pool_world \<Rightarrow> 'p \<Rightarrow> ptr \<Rightarrow> 32 word \<Rightarrow> ptr outcome \<times> 'w pool_world" where
  "poolrealloc poolalloc poolfree w Pool Node NumBytes =
     (if Node = 0 then poolalloc w Pool NumBytes
      else if NumBytes = 0 then
        (case poolfree w Pool Node of
           (Return u, w1) \<Rightarrow> (Return 0, w1)
         | (Abort, w1) \<Rightarrow> (Abort, w1)
         | (Undefined, w1) \<Rightarrow> (Undefined, w1))
      else
        (case poolalloc w Pool NumBytes of
           (Return New, w1) \<Rightarrow>
             (case memcpy (memory w1) New Node (unat NumBytes) of
                None \<Rightarrow> (Undefined, w1)
              | Some m \<Rightarrow>
                  (case poolfree (w1\<lparr>memory := m\<rparr>) Pool Node of
                     (Return u, w3) \<Rightarrow> (Return New, w3)
                   | (Abort, w3) \<Rightarrow> (Abort, w3)
                   | (Undefined, w3) \<Rightarrow> (Undefined, w3)))
         | (Abort, w1) \<Rightarrow> (Abort, w1)
         | (Undefined, w1) \<Rightarrow> (Undefined, w1)))"

text \<open>Fixtures: an allocator that hands out \<open>0x3000\<close>, a free that keeps the world,
  and a memory with one non-zero byte.\<close>

definition alloc0 :: "unit pool_world \<Rightarrow> unit \<Rightarrow> 32 word \<Rightarrow> ptr outcome \<times> unit pool_world" where
  "alloc0 w Pool NumBytes = (Return 0x3000, w)"

definition free0 :: "unit pool_world \<Rightarrow> unit \<Rightarrow> ptr \<Rightarrow> unit outcome \<times> unit pool_world" where
  "free0 w Pool Node = (Return (), w)"

definition world0 :: "unit pool_world" where
  "world0 = \<lparr>memory = (\<lambda>a. if a = 0x2001 then 7 else 0), allocator = ()\<rparr>"

section \<open>Indirect-call check\<close>

text \<open>
  \<open>funccheck(num, f, g, ...)\<close>: \<open>g\<close> is the first candidate and \<open>ap\<close> the list
  of the variadic arguments after it. The loop runs \<open>i\<close> from 1 while \<open>i != num\<close>
  and takes one variadic argument per round.
\<close>

fun funccheck_loop :: "32 word \<Rightarrow> 32 word \<Rightarrow> ptr \<Rightarrow> ptr list \<Rightarrow> unit outcome" where
  "funccheck_loop i num f [] = (if i \<noteq> num then Undefined else Abort)"
| "funccheck_loop i num f (h # ap) =
     (if i \<noteq> num then (if f = h then Return () else funccheck_loop (i + 1) num f ap)
      else Abort)"

definition funccheck :: "runtime \<Rightarrow> 32 word \<Rightarrow> ptr \<Rightarrow> ptr \<Rightarrow> ptr list \<Rightarrow> unit outcome \<times> runtime" where
  "funccheck rt num f g ap =
     (if f = g then (Return (), rt)
      else
        (case funccheck_loop 1 num f ap of
           Abort \<Rightarrow> (Abort, if logregs then fprintf Funccheck_failed rt else rt)
         | r \<Rightarrow> (r, rt)))"

section \<open>Slab pool\<close>

record PoolSlab =
  isSingleArray :: bool
  FirstUnused :: "16 word"
  UsedBegin :: "16 word"
  UsedEnd :: "16 word"
  NumNodesInSlab :: "32 word"
  NodeFlagsVector :: "32 word list"

text \<open>
  The slab's methods are modelled as a debug build runs them: every \<open>assert\<close> is a
  check, and a failed one ends the call with the assertion's name. A loop without an
  evident bound is a partial function, and not returning is the error \<open>Diverged\<close>.
\<close>

datatype assertion =
    FirstUnused_le_UsedEnd
  | UsedEnd_not_allocated
  | FirstUnused_not_allocated
  | Free_start_of_allocation
  | FirstUnused_out_of_date
  | Should_have_allocated_node
  | Bit_should_be_set
  | Removing_bit_makes_smaller
  | Scanned_node_allocated

datatype slab_error = Assertion_failed assertion | Diverged | Undefined_shift

definition c_assert :: "bool \<Rightarrow> assertion \<Rightarrow> slab_error + 'a \<Rightarrow> slab_error + 'a" where
  "c_assert c a k = (if c then k else Inl (Assertion_failed a))"

text \<open>
  Node \<open>NodeNum\<close> has its allocated bit at position \<open>NodeNum & 15\<close> and its start bit
  16 positions higher, in word \<open>NodeNum/16\<close> of the vector. The vector is the list of
  the words the slab reserves for it. An index past the list, which in the source reaches
  the node data behind the vector, is given no meaning here; the runs evaluated below stay
  inside the list.
\<close>

definition flag_word :: "PoolSlab \<Rightarrow> 32 word \<Rightarrow> 32 word" where
  "flag_word s NodeNum = NodeFlagsVector s ! unat (NodeNum div 16)"

definition set_flag_word :: "PoolSlab \<Rightarrow> 32 word \<Rightarrow> 32 word \<Rightarrow> PoolSlab" where
  "set_flag_word s NodeNum w =
     s\<lparr>NodeFlagsVector := (NodeFlagsVector s)[unat (NodeNum div 16) := w]\<rparr>"

definition isNodeAllocated :: "PoolSlab \<Rightarrow> 32 word \<Rightarrow> bool" where
  "isNodeAllocated s NodeNum =
     (flag_word s NodeNum AND push_bit (unat (NodeNum AND 15)) 1 \<noteq> 0)"

definition markNodeAllocated :: "PoolSlab \<Rightarrow> 32 word \<Rightarrow> PoolSlab" where
  "markNodeAllocated s NodeNum =
     set_flag_word s NodeNum (flag_word s NodeNum OR push_bit (unat (NodeNum AND 15)) 1)"

definition markNodeFree :: "PoolSlab \<Rightarrow> 32 word \<Rightarrow> PoolSlab" where
  "markNodeFree s NodeNum =
     set_flag_word s NodeNum (flag_word s NodeNum AND NOT (push_bit (unat (NodeNum AND 15)) 1))"

definition setStartBit :: "PoolSlab \<Rightarrow> 32 word \<Rightarrow> PoolSlab" where
  "setStartBit s NodeNum =
     set_flag_word s NodeNum (flag_word s NodeNum OR push_bit (unat (NodeNum AND 15) + 16) 1)"

definition isStartOfAllocation :: "PoolSlab \<Rightarrow> 32 word \<Rightarrow> bool" where
  "isStartOfAllocation s NodeNum =
     (flag_word s NodeNum AND push_bit (unat (NodeNum AND 15) + 16) 1 \<noteq> 0)"

definition clearStartBit :: "PoolSlab \<Rightarrow> 32 word \<Rightarrow> PoolSlab" where
  "clearStartBit s NodeNum =
     set_flag_word s NodeNum (flag_word s NodeNum AND NOT (push_bit (unat (NodeNum AND 15) + 16) 1))"

definition getSlabSize :: "PoolSlab \<Rightarrow> 32 word" where
  "getSlabSize s = NumNodesInSlab s"

text \<open>The three assertions of \<open>assertOkay\<close>, in the source's order.\<close>

definition assertOkay :: "PoolSlab \<Rightarrow> slab_error + unit" where
  "assertOkay s =
     c_assert (FirstUnused s \<le> UsedEnd s) FirstUnused_le_UsedEnd
       (c_assert (ucast (UsedEnd s) = getSlabSize s \<or> \<not> isNodeAllocated s (ucast (UsedEnd s)))
          UsedEnd_not_allocated
          (c_assert (ucast (FirstUnused s) = getSlabSize s
                     \<or> \<not> isNodeAllocated s (ucast (FirstUnused s)))
             FirstUnused_not_allocated (Inr ())))"

text \<open>
  \<open>PoolSlab::create\<close>: the number of nodes comes from the static \<open>getSlabSize(Pool)\<close>,
  which divides the page size (a constant that is not among the sources) among the nodes;
  it is a parameter here, as is the content \<open>page\<close> the fresh page holds where the
  vector lies. The list linking (\<open>addToList\<close>) is left out.
\<close>

definition create :: "32 word \<Rightarrow> 32 word list \<Rightarrow> PoolSlab" where
  "create NodesPerSlab page =
     fold (\<lambda>i s. clearStartBit (markNodeFree s (of_nat i)) (of_nat i)) [0 ..< unat NodesPerSlab]
       \<lparr>isSingleArray = False, FirstUnused = 0, UsedBegin = 0, UsedEnd = 0,
        NumNodesInSlab = NodesPerSlab, NodeFlagsVector = page\<rparr>"

text \<open>The \<open>do { ++FU; } while (FU != SlabSize && isNodeAllocated(FU))\<close> loop.\<close>

partial_function (option) next_unused :: "PoolSlab \<Rightarrow> 32 word \<Rightarrow> 16 word \<Rightarrow> 16 word option" where
  "next_unused s SlabSize FU =
     (let FU1 = FU + 1
      in if ucast FU1 \<noteq> SlabSize \<and> isNodeAllocated s (ucast FU1)
         then next_unused s SlabSize FU1 else Some FU1)"

definition allocateSingle :: "PoolSlab \<Rightarrow> slab_error + int \<times> PoolSlab" where
  "allocateSingle s =
     (if isSingleArray s then Inr (- 1, s)
      else
        let SlabSize = getSlabSize s in
        if ucast (UsedEnd s) < SlabSize then
          (let UE = UsedEnd s;
               s1 = setStartBit (markNodeAllocated s (ucast UE)) (ucast UE);
               s2 = (if FirstUnused s1 = UE then s1\<lparr>FirstUnused := FirstUnused s1 + 1\<rparr> else s1);
               s3 = s2\<lparr>UsedEnd := UsedEnd s2 + 1\<rparr>
           in case assertOkay s3 of Inl e \<Rightarrow> Inl e | Inr _ \<Rightarrow> Inr (uint UE, s3))
        else if ucast (FirstUnused s) < SlabSize then
          (let Idx = ucast (FirstUnused s) :: 32 word;
               s1 = setStartBit (markNodeAllocated s Idx) Idx
           in case next_unused s1 SlabSize (FirstUnused s1) of
                None \<Rightarrow> Inl Diverged
              | Some FU \<Rightarrow>
                  (let s2 = s1\<lparr>FirstUnused := FU\<rparr>
                   in case assertOkay s2 of Inl e \<Rightarrow> Inl e | Inr _ \<Rightarrow> Inr (uint Idx, s2)))
        else (case assertOkay s of Inl e \<Rightarrow> Inl e | Inr _ \<Rightarrow> Inr (- 1, s)))"

text \<open>
  \<open>lastNodeAllocated\<close>. \<open>scan_words v c\<close> is the loop over the lower flag words:
  \<open>c\<close> is the word index before the \<open>--CurWord\<close>, and reaching 0 is the wrap to
  \<open>~0U\<close> that ends the loop. \<open>find_msb\<close> is the loop that lowers \<open>MSB\<close> from 15;
  below bit 0 the shift count would wrap. The block after the label
  \<open>ContainsAllocatedNode\<close> takes the word index and the flags it was reached with.
\<close>

fun scan_words :: "32 word list \<Rightarrow> nat \<Rightarrow> (nat \<times> 16 word) option" where
  "scan_words v 0 = None"
| "scan_words v (Suc c) =
     (let Flags = ucast (v ! c AND 0xFFFF) :: 16 word
      in if Flags \<noteq> 0 then Some (c, Flags) else scan_words v c)"

fun find_msb :: "16 word \<Rightarrow> nat \<Rightarrow> nat option" where
  "find_msb Flags 0 = (if Flags AND 1 \<noteq> 0 then Some 0 else None)"
| "find_msb Flags (Suc m) =
     (if Flags AND push_bit (Suc m) 1 \<noteq> 0 then Some (Suc m) else find_msb Flags m)"

definition ContainsAllocatedNode :: "PoolSlab \<Rightarrow> nat \<Rightarrow> 16 word \<Rightarrow> slab_error + 32 word" where
  "ContainsAllocatedNode s CurWord Flags =
     c_assert (Flags \<noteq> 0) Should_have_allocated_node
       (case find_msb Flags 15 of
          None \<Rightarrow> Inl Undefined_shift
        | Some MSB \<Rightarrow>
            c_assert (push_bit MSB 1 AND Flags \<noteq> 0) Bit_should_be_set
              (c_assert (NOT (push_bit MSB 1) AND Flags < Flags) Removing_bit_makes_smaller
                 (let ScanIdx = of_nat (CurWord * 16 + MSB) :: 32 word
                  in c_assert (isNodeAllocated s ScanIdx) Scanned_node_allocated (Inr ScanIdx))))"

definition lastNodeAllocated :: "PoolSlab \<Rightarrow> 32 word \<Rightarrow> slab_error + 32 word" where
  "lastNodeAllocated s ScanIdx =
     (let CurWord = unat (ScanIdx div 16);
          Flags = ucast (NodeFlagsVector s ! CurWord AND 0xFFFF) :: 16 word;
          Flags1 = Flags AND (push_bit (unat (ScanIdx AND 15) + 1) 1 - 1)
      in if Flags \<noteq> 0 \<and> Flags1 \<noteq> 0 then ContainsAllocatedNode s CurWord Flags1
         else
           (case scan_words (NodeFlagsVector s) CurWord of
              None \<Rightarrow> Inr 0
            | Some (c, F) \<Rightarrow> ContainsAllocatedNode s c F))"

text \<open>
  \<open>freeElement\<close>. \<open>free_run\<close> is the loop that frees the nodes of the run;
  \<open>freeElement_body\<close> is the method from the first \<open>markNodeFree\<close> up to, and
  without, the closing \<open>assertOkay()\<close>.
\<close>

partial_function (option) free_run :: "PoolSlab \<Rightarrow> 16 word \<Rightarrow> 16 word \<Rightarrow> (PoolSlab \<times> 16 word) option" where
  "free_run s UE ElementEndIdx =
     (if ElementEndIdx \<noteq> UE \<and> \<not> isStartOfAllocation s (ucast ElementEndIdx)
         \<and> isNodeAllocated s (ucast ElementEndIdx)
      then free_run (markNodeFree s (ucast ElementEndIdx)) UE (ElementEndIdx + 1)
      else Some (s, ElementEndIdx))"

definition freeElement_body :: "PoolSlab \<Rightarrow> 16 word \<Rightarrow> slab_error + PoolSlab" where
  "freeElement_body s ElementIdx =
     (let s1 = markNodeFree s (ucast ElementIdx) in
      c_assert (isStartOfAllocation s1 (ucast ElementIdx)) Free_start_of_allocation
        (let s2 = markNodeFree (clearStartBit s1 (ucast ElementIdx)) (ucast ElementIdx);
             UE = UsedEnd s2
         in case free_run s2 UE (ElementIdx + 1) of
              None \<Rightarrow> Inl Diverged
            | Some (s3, ElementEndIdx) \<Rightarrow>
                (let s4 = (if ElementIdx < FirstUnused s3 then s3\<lparr>FirstUnused := ElementIdx\<rparr> else s3);
                     s5 = (if ElementIdx = UsedBegin s4 then s4\<lparr>UsedBegin := ElementEndIdx\<rparr> else s4)
                 in if ElementEndIdx = UE then
                      (if UsedBegin s5 = UE
                       then Inr (s5\<lparr>FirstUnused := 0, UsedBegin := 0, UsedEnd := 0\<rparr>)
                       else if FirstUnused s5 = ElementIdx
                       then Inr (s5\<lparr>FirstUnused := ElementIdx, UsedEnd := ElementIdx\<rparr>)
                       else
                         (case lastNodeAllocated s5 (ucast ElementIdx) of
                            Inl e \<Rightarrow> Inl e
                          | Inr n \<Rightarrow>
                              (let s6 = s5\<lparr>UsedEnd := ucast n\<rparr>
                               in c_assert (uint (FirstUnused s6) \<le> uint (UsedEnd s6) + 1)
                                    FirstUnused_out_of_date (Inr s6))))
                    else Inr s5)))"

definition freeElement :: "PoolSlab \<Rightarrow> 16 word \<Rightarrow> slab_error + PoolSlab" where
  "freeElement s ElementIdx =
     (if \<not> isNodeAllocated s (ucast ElementIdx) then Inr s
      else
        (case freeElement_body s ElementIdx of
           Inl e \<Rightarrow> Inl e
         | Inr s1 \<Rightarrow> (case assertOkay s1 of Inl e \<Rightarrow> Inl e | Inr _ \<Rightarrow> Inr s1)))"

text \<open>A slab of four nodes, by its three cursors and its one flag word.\<close>

definition slab :: "16 word \<Rightarrow> 16 word \<Rightarrow> 16 word \<Rightarrow> 32 word \<Rightarrow> PoolSlab" where
  "slab fu ub ue w = \<lparr>isSingleArray = False, FirstUnused = fu, UsedBegin = ub, UsedEnd = ue,
        NumNodesInSlab = 4, NodeFlagsVector = [w]\<rparr>"

section \<open>Baggy-bounds engine\<close>

text \<open>
  BaggyBoundsCheck.cpp keeps addresses in \<open>uintptr_t\<close> and reserves a table with one
  byte per 16-byte slot of a 46-bit space, so an address is a 64-bit word; byte counts
  are \<open>unsigned\<close>, 32 bits.
\<close>

type_synonym addr = "64 word"

definition SLOT_SIZE :: nat where
  "SLOT_SIZE = 4"

text \<open>
  How a call can leave defined behaviour or end the process: a shift by 32 or more, the
  failed alignment assertion of \<open>__internal_register\<close>, the use of the pointer that
  a failed \<open>posix_memalign\<close> left unset, and \<open>memcpy\<close> on regions that overlap.
\<close>

datatype bb_error = Undefined_shift | Not_aligned | Indeterminate_pointer | Overlapping_copy

text \<open>
  The C library's allocator is outside the repository: \<open>posix_memalign\<close> (alignment,
  size; \<open>None\<close> when it fails and leaves the pointer unset) and \<open>free\<close> are
  parameters, acting on an allocator state of their own.
\<close>

record 'h libc =
  posix_memalign :: "'h \<Rightarrow> addr \<Rightarrow> addr \<Rightarrow> addr option \<times> 'h"
  free :: "'h \<Rightarrow> addr \<Rightarrow> 'h"

text \<open>
  The engine's state: the shadow table \<open>__baggybounds_size_table_begin\<close> by slot index,
  the program's memory by address, and the C library's allocator state.
\<close>

record 'h bb_state =
  size_table :: "addr \<Rightarrow> 8 word"
  bb_memory :: "addr \<Rightarrow> 8 word"
  libc_heap :: 'h

text \<open>
  \<open>unsigned char size = 0; while ((unsigned)(1 << size) < NumBytes) size++;\<close> The
  counter stays at most 32, so it is a natural number here; \<open>1 << 31\<close> is taken as the
  32-bit pattern \<open>0x80000000\<close>, and a shift by 32 is undefined, which ends the loop with
  \<open>None\<close>.
\<close>

function size_loop :: "32 word \<Rightarrow> nat \<Rightarrow> nat option" where
  "size_loop NumBytes sz =
     (if 32 \<le> sz then None
      else if (push_bit sz 1 :: 32 word) < NumBytes then size_loop NumBytes (Suc sz)
      else Some sz)"
  by pat_completeness auto
termination
  by (relation "measure (\<lambda>(NumBytes, sz). 32 - sz)") auto

declare size_loop.simps [simp del]

text \<open>
  The size computation that opens both \<open>__sc_bb_src_poolalloc\<close> and
  \<open>__internal_register\<close>: the loop, then \<open>if (size < SLOT_SIZE) size = SLOT_SIZE\<close>.
  Isabelle names cannot start with an underscore, so the functions drop the leading
  \<open>__\<close>.
\<close>

definition size_class :: "32 word \<Rightarrow> nat option" where
  "size_class NumBytes =
     (case size_loop NumBytes 0 of
        None \<Rightarrow> None
      | Some sz \<Rightarrow> Some (if sz < SLOT_SIZE then SLOT_SIZE else sz))"

definition sc_bb_src_poolalloc ::
    "'h libc \<Rightarrow> 'h bb_state \<Rightarrow> 32 word \<Rightarrow> bb_error + addr option \<times> 'h bb_state" where
  "sc_bb_src_poolalloc lc st NumBytes =
     (case size_class NumBytes of
        None \<Rightarrow> Inl Undefined_shift
      | Some sz \<Rightarrow>
          (let alloc = push_bit sz 1 :: 32 word
           in case posix_memalign lc (libc_heap st) (ucast alloc) (ucast alloc) of
                (p, h) \<Rightarrow> Inr (p, st\<lparr>libc_heap := h\<rparr>)))"

definition internal_register :: "'h bb_state \<Rightarrow> addr \<Rightarrow> 32 word \<Rightarrow> bb_error + 'h bb_state" where
  "internal_register st allocaptr NumBytes =
     (case size_class NumBytes of
        None \<Rightarrow> Inl Undefined_shift
      | Some sz \<Rightarrow>
          (let Source = allocaptr;
               Source1 = Source AND scast (NOT (push_bit sz 1 - 1 :: 32 word))
           in if Source1 \<noteq> Source then Inl Not_aligned
              else
                (let index = drop_bit SLOT_SIZE Source1;
                     slots = push_bit (sz - SLOT_SIZE) 1 :: 32 word
                 in Inr (st\<lparr>size_table :=
                      memset (size_table st) index (of_nat sz) (unat slots)\<rparr>))))"

definition sc_bb_poolalloc ::
    "'h libc \<Rightarrow> 'h bb_state \<Rightarrow> 32 word \<Rightarrow> bb_error + addr option \<times> 'h bb_state" where
  "sc_bb_poolalloc lc st NumBytes = sc_bb_src_poolalloc lc st NumBytes"

definition sc_bb_poolregister :: "'h bb_state \<Rightarrow> addr \<Rightarrow> 32 word \<Rightarrow> bb_error + 'h bb_state" where
  "sc_bb_poolregister st allocaptr NumBytes = internal_register st allocaptr NumBytes"

text \<open>
  \<open>__sc_bb_poolunregister\<close> (through \<open>__sc_bb_poolunregister_debug\<close>): \<open>e\<close> is the
  table entry as \<open>unsigned\<close>; \<open>1 << e\<close> and \<open>1 << (e - SLOT_SIZE)\<close> are \<open>int\<close>
  shifts, the first widened to \<open>uintptr_t\<close>.
\<close>

definition sc_bb_poolunregister :: "'h bb_state \<Rightarrow> addr \<Rightarrow> bb_error + 'h bb_state" where
  "sc_bb_poolunregister st allocaptr =
     (let Source = allocaptr;
          e = ucast (size_table st (drop_bit SLOT_SIZE Source)) :: 32 word
      in if e = 0 then Inr st
         else if 32 \<le> unat e \<or> 32 \<le> unat (e - of_nat SLOT_SIZE) then Inl Undefined_shift
         else
           (let sz = scast (push_bit (unat e) 1 :: 32 word) :: addr;
                base = Source AND NOT (sz - 1);
                index = drop_bit SLOT_SIZE base;
                slots = push_bit (unat (e - of_nat SLOT_SIZE)) 1 :: 32 word
            in Inr (st\<lparr>size_table := memset (size_table st) index 0 (unat slots)\<rparr>)))"

definition sc_bb_poolfree :: "'h libc \<Rightarrow> 'h bb_state \<Rightarrow> addr \<Rightarrow> 'h bb_state" where
  "sc_bb_poolfree lc st Node = st\<lparr>libc_heap := free lc (libc_heap st) Node\<rparr>"

definition sc_bb_poolrealloc ::
    "'h libc \<Rightarrow> 'h bb_state \<Rightarrow> addr \<Rightarrow> 32 word \<Rightarrow> bb_error + addr \<times> 'h bb_state" where
  "sc_bb_poolrealloc lc st Node NumBytes =
     (if Node = 0 then
        (case sc_bb_poolalloc lc st NumBytes of
           Inl err \<Rightarrow> Inl err
         | Inr (None, st1) \<Rightarrow> Inl Indeterminate_pointer
         | Inr (Some New, st1) \<Rightarrow>
             (case sc_bb_poolregister st1 New NumBytes of
                Inl err \<Rightarrow> Inl err
              | Inr st2 \<Rightarrow> Inr (New, st2)))
      else if NumBytes = 0 then
        (case sc_bb_poolunregister st Node of
           Inl err \<Rightarrow> Inl err
         | Inr st1 \<Rightarrow> Inr (0, sc_bb_poolfree lc st1 Node))
      else
        (case sc_bb_poolalloc lc st NumBytes of
           Inl err \<Rightarrow> Inl err
         | Inr (None, st1) \<Rightarrow> Inl Indeterminate_pointer
         | Inr (Some New, st1) \<Rightarrow>
             (case sc_bb_poolregister st1 New NumBytes of
                Inl err \<Rightarrow> Inl err
              | Inr st2 \<Rightarrow>
                  (let Source = Node;
                       e = size_table st2 (drop_bit SLOT_SIZE Source)
                   in if 32 \<le> unat e then Inl Undefined_shift
                      else
                        (let sz = push_bit (unat e) 1 :: 32 word
                         in case memcpy (bb_memory st2) New Node (unat sz) of
                              None \<Rightarrow> Inl Overlapping_copy
                            | Some m \<Rightarrow>
                                (case sc_bb_poolunregister (st2\<lparr>bb_memory := m\<rparr>) Node of
                                   Inl err \<Rightarrow> Inl err
                                 | Inr st4 \<Rightarrow> Inr (New, sc_bb_poolfree lc st4 Node)))))))"

text \<open>Fixtures: an allocator that hands out \<open>0x10000\<close>, an empty table, and a state
  with a registered 16-byte block at \<open>0x20000\<close>.\<close>

definition libc0 :: "unit libc" where
  "libc0 = \<lparr>posix_memalign = (\<lambda>h al sz. (Some 0x10000, h)), free = (\<lambda>h p. h)\<rparr>"

definition bb0 :: "unit bb_state" where
  "bb0 = \<lparr>size_table = (\<lambda>i. 0), bb_memory = (\<lambda>a. 0), libc_heap = ()\<rparr>"

definition bb1 :: "unit bb_state" where
  "bb1 = \<lparr>size_table = (\<lambda>i. if i = 0x2000 then 4 else 0),
          bb_memory = (\<lambda>a. if a = 0x20010 then 0xAA else 0), libc_heap = ()\<rparr>"

section \<open>Well-formed object records\<close>

text \<open>
  An object record describes real storage: the object and its one-past-the-end address
  lie inside the 32-bit address space.
\<close>

definition fits :: "ptr \<Rightarrow> 32 word \<Rightarrow> bool" where
  "fits s l = (unat s + unat l < 2 ^ 32)"

definition fits_all :: "splay \<Rightarrow> bool" where
  "fits_all tree = list_all (\<lambda>r. fits (fst r) (fst (snd r))) tree"

definition in_object :: "ptr \<Rightarrow> 32 word \<Rightarrow> ptr \<Rightarrow> bool" where
  "in_object s l q = (unat s \<le> unat q \<and> unat q < unat s + unat l)"

text \<open>Two records overlap when they share an address; an index holds disjoint records.\<close>

definition overlap :: "interval \<Rightarrow> interval \<Rightarrow> bool" where
  "overlap a b =
     (case a of (s, l, t) \<Rightarrow> case b of (s', l', t') \<Rightarrow>
        unat s < unat s' + unat l' \<and> unat s' < unat s + unat l)"

fun disjoint_index :: "splay \<Rightarrow> bool" where
  "disjoint_index [] = True"
| "disjoint_index (r # rs) = (list_all (\<lambda>x. \<not> overlap r x) rs \<and> disjoint_index rs)"

text \<open>
  The cursor a rewrite starts from (\<open>InvalidLower\<close> while \<open>invalidptr\<close> is
  still 0) and the value it takes on the next rewrite. The cursor is in order when it is
  not below \<open>InvalidLower\<close> and not at the last address, where the increment would
  wrap to \<open>NULL\<close>.
\<close>

definition cursor :: "runtime \<Rightarrow> ptr" where
  "cursor rt = (if invalidptr rt = 0 then InvalidLower rt else invalidptr rt)"

definition next_invalidptr :: "runtime \<Rightarrow> ptr" where
  "next_invalidptr rt = cursor rt + 1"

definition cursor_ok :: "runtime \<Rightarrow> bool" where
  "cursor_ok rt = (InvalidLower rt \<le> cursor rt \<and> cursor rt \<noteq> - 1)"

text \<open>
  \<open>past_end P src dst\<close>: the pool holds a record, inside the address space, that
  contains \<open>src\<close> and ends at \<open>dst\<close>.
\<close>

definition past_end :: "PoolTy \<Rightarrow> ptr \<Rightarrow> ptr \<Rightarrow> bool" where
  "past_end P src dst =
     list_ex (\<lambda>r. case r of (base, len, t) \<Rightarrow>
        fits base len \<and> in_object base len src \<and> dst = base + len) (Objects P)"

text \<open>
  A run of bounds checks, as the instrumented program makes them one after the other:
  each call is \<open>boundscheckui\<close> when its flag is set and \<open>boundscheck\<close>
  otherwise, on a source and a destination, and works on the state the call before it
  left. The run gives the outcomes in order and ends at the first call that does not
  return.
\<close>

fun check_calls :: "runtime \<Rightarrow> PoolTy \<Rightarrow> (bool \<times> ptr \<times> ptr) list \<Rightarrow> ptr outcome list \<times> runtime \<times> PoolTy" where
  "check_calls rt P [] = ([], rt, P)"
| "check_calls rt P ((ui, src, dst) # cs) =
     (case (if ui then boundscheckui rt P src dst else boundscheck rt P src dst) of
        (Return r, rt1, P1) \<Rightarrow>
          (case check_calls rt1 P1 cs of (rs, rt2, P2) \<Rightarrow> (Return r # rs, rt2, P2))
      | (Abort, rt1, P1) \<Rightarrow> ([Abort], rt1, P1)
      | (Undefined, rt1, P1) \<Rightarrow> ([Undefined], rt1, P1))"

definition out_of_rewrite_ptrs :: "bool \<times> ptr \<times> ptr \<Rightarrow> msg" where
  "out_of_rewrite_ptrs c =
     (if fst c then Boundscheckui_out_of_rewrite_ptrs else Boundscheck_out_of_rewrite_ptrs)"

text \<open>Fixtures for the concrete instances: an empty pool, a pool with one object, and
  runtimes with a fresh and with a used-up cursor.\<close>

definition pool0 :: PoolTy where
  "pool0 = \<lparr>NodeSize = 1, Objects = [], OOB = [], DPTree = []\<rparr>"

definition pool1 :: PoolTy where
  "pool1 = \<lparr>NodeSize = 1, Objects = [(0x1000, 16, 0)], OOB = [], DPTree = []\<rparr>"

definition rt0 :: runtime where
  "rt0 = \<lparr>stderr = [], invalidptr = 0, ExternalObjects = [],
          InvalidLower = 0x40000000, InvalidUpper = 0x80000000\<rparr>"

definition rt_ext :: runtime where
  "rt_ext = \<lparr>stderr = [], invalidptr = 0, ExternalObjects = [(0x5000, 8, 0)],
             InvalidLower = 0x40000000, InvalidUpper = 0x80000000\<rparr>"

definition rt_last :: runtime where
  "rt_last = \<lparr>stderr = [], invalidptr = 0xFFFFFFFF, ExternalObjects = [],
              InvalidLower = 0x40000000, InvalidUpper = 0x80000000\<rparr>"

definition rt_full :: runtime where
  "rt_full = \<lparr>stderr = [], invalidptr = 0x80000000, ExternalObjects = [],
              InvalidLower = 0x40000000, InvalidUpper = 0x80000000\<rparr>"

section \<open>Lemmas on the index and on address arithmetic\<close>

lemma fits_word_interval:
  "fits s l \<Longrightarrow> (s \<le> q \<and> s + l > q) = in_object s l q"
  by (simp add: fits_def in_object_def word_le_nat_alt word_less_nat_alt unat_word_ariths)

lemma retrieve_covers:
  "adl_splay_retrieve tree k = Some r \<Longrightarrow> r \<in> set tree \<and> covers r k"
  by (auto simp: adl_splay_retrieve_def find_Some_iff)

lemma retrieve_None_iff:
  "adl_splay_retrieve tree k = None \<longleftrightarrow> (\<forall>r \<in> set tree. \<not> covers r k)"
  by (auto simp: adl_splay_retrieve_def find_None_iff)

lemma retrieve_insert_hit:
  "in_object s l k \<Longrightarrow> adl_splay_retrieve (adl_splay_insert tree s l t) k = Some (s, l, t)"
  by (simp add: adl_splay_retrieve_def adl_splay_insert_def covers_def in_object_def)

lemma splay_find_None:
  "adl_splay_retrieve tree k = None \<Longrightarrow> splay_find tree k l0 t0 = (False, k, l0, t0)"
  by (simp add: splay_find_def)

lemma splay_find_Some:
  "adl_splay_retrieve tree k = Some (s, l, t) \<Longrightarrow> splay_find tree k l0 t0 = (True, s, l, t)"
  by (simp add: splay_find_def)

lemma covers_in_object: "covers (s, l, t) q = in_object s l q"
  by (simp add: covers_def in_object_def)

lemma covers_overlap: "covers a k \<Longrightarrow> covers b k \<Longrightarrow> overlap a b"
  by (auto simp: covers_def overlap_def split: prod.splits)

lemma live_record_retrieve:
  "disjoint_index tree \<Longrightarrow> r \<in> set tree \<Longrightarrow> covers r k \<Longrightarrow> adl_splay_retrieve tree k = Some r"
proof (induction tree)
  case Nil
  then show ?case by simp
next
  case (Cons a tree)
  show ?case
  proof (cases "covers a k")
    case True
    have "a = r"
    proof (rule ccontr)
      assume "a \<noteq> r"
      with Cons.prems have "r \<in> set tree" by simp
      with Cons.prems have "\<not> overlap a r" by (simp add: list_all_iff)
      with True Cons.prems show False by (simp add: covers_overlap)
    qed
    with True show ?thesis by (simp add: adl_splay_retrieve_def)
  next
    case False
    with Cons.prems have "r \<in> set tree" by auto
    with Cons False show ?thesis by (simp add: adl_splay_retrieve_def)
  qed
qed

lemma and_not_zero_iff: "((x::32 word) AND NOT m = 0) = (x AND m = x)"
  by (auto simp: bit_eq_iff bit_simps)

lemma mask_test_pow2:
  "k < 32 \<Longrightarrow> ((x::32 word) AND NOT (2 ^ k - 1) = 0) = (x < 2 ^ k)"
proof -
  assume k: "k < 32"
  have "(x AND NOT (mask k) = 0) = (x AND mask k = x)" by (rule and_not_zero_iff)
  also have "\<dots> = (x < 2 ^ k)" using k by (simp add: mask_eq_iff_w2p word_size)
  finally show ?thesis by (simp add: mask_eq_exp_minus_1)
qed

lemma mask_test_le: "(x::32 word) AND NOT (u - 1) = 0 \<Longrightarrow> x \<le> u - 1"
  by (metis and.commute disjunctive_diff_eq_and_not word_and_le2 word_sub_le_iff)

lemma mask_test_less: "(x::32 word) AND NOT (u - 1) = 0 \<Longrightarrow> u \<noteq> 0 \<Longrightarrow> x < u"
proof -
  assume a: "x AND NOT (u - 1) = 0" and u: "u \<noteq> 0"
  from a have "x \<le> u - 1" by (rule mask_test_le)
  moreover from u have "u - 1 < u" by (simp add: word_less_nat_alt unat_minus_one unat_gt_0)
  ultimately show ?thesis by simp
qed

lemma word_le_less_succ: "(l::32 word) \<le> c \<Longrightarrow> c \<noteq> - 1 \<Longrightarrow> l < c + 1"
  using inc_less_eq_iff by fastforce

lemma next_above_lower: "cursor_ok rt \<Longrightarrow> InvalidLower rt < next_invalidptr rt"
  by (simp add: cursor_ok_def next_invalidptr_def word_le_less_succ)

lemma cursor_ok_step:
  "cursor_ok rt \<Longrightarrow> next_invalidptr rt \<noteq> - 1 \<Longrightarrow>
   cursor_ok (rt\<lparr>invalidptr := next_invalidptr rt\<rparr>)"
proof -
  assume c: "cursor_ok rt" and n: "next_invalidptr rt \<noteq> - 1"
  from c have lt: "InvalidLower rt < next_invalidptr rt" by (rule next_above_lower)
  then have "next_invalidptr rt \<noteq> 0" by (auto simp: word_less_nat_alt)
  with lt n show ?thesis by (simp add: cursor_ok_def cursor_def)
qed

lemma rewrite_ptr_eq:
  "rewrite_ptr mlog mout rt Pool Dest =
     (if next_invalidptr rt AND NOT (InvalidUpper rt - 1) \<noteq> 0
      then (Return Dest, fprintf mout (rt\<lparr>invalidptr := next_invalidptr rt\<rparr>), Pool)
      else (Return (next_invalidptr rt), rt\<lparr>invalidptr := next_invalidptr rt\<rparr>,
            Pool\<lparr>OOB := adl_splay_insert (OOB Pool) (next_invalidptr rt) 1 Dest\<rparr>))"
  by (simp add: rewrite_ptr_def next_invalidptr_def cursor_def logregs_def Let_def)

lemma getActualValue_minted:
  "InvalidLower rt < r \<Longrightarrow> r AND NOT (InvalidUpper rt - 1) = 0 \<Longrightarrow>
   pchk_getActualValue rt (Pool\<lparr>OOB := adl_splay_insert (OOB Pool) r 1 dst\<rparr>) r = (Return dst, rt)"
proof -
  assume lo: "InvalidLower rt < r" and hi: "r AND NOT (InvalidUpper rt - 1) = 0"
  have "in_object r 1 r" by (simp add: in_object_def)
  then have "splay_find (adl_splay_insert (OOB Pool) r 1 dst) r 0 0 = (True, r, 1, dst)"
    by (simp add: splay_find_Some retrieve_insert_hit)
  with lo hi show ?thesis by (simp add: pchk_getActualValue_def not_le [symmetric])
qed

lemma boundscheck_found:
  "adl_splay_retrieve (Objects P) src = Some (base, len, t) \<Longrightarrow> fits base len \<Longrightarrow>
   boundscheck rt P src dst =
     (if in_object base len dst then (Return dst, rt, P)
      else if dst = base + len
      then rewrite_ptr Boundscheck_rewrite Boundscheck_out_of_rewrite_ptrs rt P dst
      else (Abort, fprintf Boundscheck_failed_out_of_object rt, P))"
  by (simp add: boundscheck_def splay_find_Some fits_word_interval)

lemma boundscheckui_found:
  "adl_splay_retrieve (Objects P) src = Some (base, len, t) \<Longrightarrow> fits base len \<Longrightarrow>
   in_object base len dst \<or> dst = base + len \<Longrightarrow>
   boundscheckui rt P src dst =
     (if in_object base len dst then (Return dst, rt, P)
      else rewrite_ptr Boundscheckui_rewrite Boundscheckui_out_of_rewrite_ptrs rt P dst)"
  by (auto simp: boundscheckui_def splay_find_Some fits_word_interval)

lemma one_past_end_outside: "fits base len \<Longrightarrow> \<not> in_object base len (base + len)"
  by (simp add: fits_def in_object_def unat_word_ariths)

lemma fits_allD: "fits_all tree \<Longrightarrow> (s, l, t) \<in> set tree \<Longrightarrow> fits s l"
  by (auto simp: fits_all_def list_all_iff)

lemma splay_check:
  "fits_all tree \<Longrightarrow>
   (case splay_find tree q l0 t0 of (fs, S, len, t) \<Rightarrow> fs \<and> S \<le> q \<and> S + len > q)
     = (\<exists>r \<in> set tree. covers r q)"
proof (cases "adl_splay_retrieve tree q")
  case None
  then show ?thesis by (simp add: splay_find_None retrieve_None_iff)
next
  case (Some r)
  assume fa: "fits_all tree"
  obtain s l t where r: "r = (s, l, t)" by (cases r)
  from Some have mem: "r \<in> set tree" and cov: "covers r q"
    by (auto dest: retrieve_covers)
  from fa mem r have "fits s l" by (auto dest: fits_allD)
  then have "(s \<le> q \<and> s + l > q) = in_object s l q" by (rule fits_word_interval)
  with cov r have "s \<le> q \<and> s + l > q" by (simp add: covers_in_object)
  with Some r mem cov show ?thesis by (auto simp: splay_find_Some)
qed


lemma exhausted_next:
  assumes u: "InvalidUpper rt = 2 ^ k" and k: "k < 32"
    and c: "InvalidUpper rt \<le> invalidptr rt" and w: "invalidptr rt \<noteq> - 1"
  shows "next_invalidptr rt = invalidptr rt + 1"
    and "next_invalidptr rt AND NOT (InvalidUpper rt - 1) \<noteq> 0"
    and "InvalidUpper rt \<le> invalidptr rt + 1"
proof -
  from u k have "InvalidUpper rt \<noteq> 0" by (simp add: word_2p_lem word_size)
  with c have nz: "invalidptr rt \<noteq> 0" by auto
  then show n: "next_invalidptr rt = invalidptr rt + 1"
    by (simp add: next_invalidptr_def cursor_def)
  from c w have lt: "InvalidUpper rt < invalidptr rt + 1" by (rule word_le_less_succ)
  then show "InvalidUpper rt \<le> invalidptr rt + 1" by simp
  from lt u have "\<not> invalidptr rt + 1 < 2 ^ k" by simp
  with k have "(invalidptr rt + 1) AND NOT (2 ^ k - 1) \<noteq> 0" by (simp add: mask_test_pow2)
  with n u show "next_invalidptr rt AND NOT (InvalidUpper rt - 1) \<noteq> 0" by simp
qed

lemma exhausted_step:
  "InvalidUpper rt = 2 ^ k \<Longrightarrow> k < 32 \<Longrightarrow> InvalidUpper rt \<le> invalidptr rt \<Longrightarrow>
   invalidptr rt \<noteq> - 1 \<Longrightarrow>
   disjoint_index (Objects P) \<Longrightarrow> (base, len, t) \<in> set (Objects P) \<Longrightarrow> fits base len \<Longrightarrow>
   in_object base len src \<Longrightarrow>
   boundscheck rt P src (base + len) =
     (Return (base + len),
      fprintf Boundscheck_out_of_rewrite_ptrs (rt\<lparr>invalidptr := invalidptr rt + 1\<rparr>), P)
   \<and> boundscheckui rt P src (base + len) =
     (Return (base + len),
      fprintf Boundscheckui_out_of_rewrite_ptrs (rt\<lparr>invalidptr := invalidptr rt + 1\<rparr>), P)
   \<and> InvalidUpper rt \<le> invalidptr rt + 1"
proof -
  assume u: "InvalidUpper rt = 2 ^ k" and k: "k < 32"
    and c: "InvalidUpper rt \<le> invalidptr rt" and w: "invalidptr rt \<noteq> - 1"
    and dj: "disjoint_index (Objects P)" and mem: "(base, len, t) \<in> set (Objects P)"
    and f: "fits base len" and src: "in_object base len src"
  note ex = exhausted_next [OF u k c w]
  from dj mem src have r: "adl_splay_retrieve (Objects P) src = Some (base, len, t)"
    by (simp add: live_record_retrieve covers_in_object)
  from f have ope: "\<not> in_object base len (base + len)" by (rule one_past_end_outside)
  have a: "boundscheck rt P src (base + len) =
     (Return (base + len),
      fprintf Boundscheck_out_of_rewrite_ptrs (rt\<lparr>invalidptr := invalidptr rt + 1\<rparr>), P)"
    using ope ex(2) by (simp add: boundscheck_found [OF r f] rewrite_ptr_eq ex(1))
  have b: "boundscheckui rt P src (base + len) =
     (Return (base + len),
      fprintf Boundscheckui_out_of_rewrite_ptrs (rt\<lparr>invalidptr := invalidptr rt + 1\<rparr>), P)"
    using ope ex(2) by (simp add: boundscheckui_found [OF r f] rewrite_ptr_eq ex(1))
  from a b ex(3) show ?thesis by simp
qed

lemma past_endE:
  "past_end P src dst \<Longrightarrow>
   \<exists>base len t. (base, len, t) \<in> set (Objects P) \<and> fits base len \<and> in_object base len src
      \<and> dst = base + len"
  by (auto simp: past_end_def list_ex_iff)

lemma exhausted_call:
  assumes u: "InvalidUpper rt = 2 ^ k" and k: "k < 32"
    and c: "InvalidUpper rt \<le> invalidptr rt" and w: "invalidptr rt \<noteq> - 1"
    and dj: "disjoint_index (Objects P)" and pe: "past_end P src dst"
  shows "(if ui then boundscheckui rt P src dst else boundscheck rt P src dst) =
     (Return dst,
      fprintf (out_of_rewrite_ptrs (ui, src, dst)) (rt\<lparr>invalidptr := invalidptr rt + 1\<rparr>), P)"
    and "InvalidUpper rt \<le> invalidptr rt + 1"
proof -
  from pe obtain base len t where
    r: "(base, len, t) \<in> set (Objects P)" "fits base len" "in_object base len src"
      "dst = base + len"
    using past_endE by blast
  note st = exhausted_step [OF u k c w dj r(1) r(2) r(3)]
  from st r(4) show "(if ui then boundscheckui rt P src dst else boundscheck rt P src dst) =
     (Return dst,
      fprintf (out_of_rewrite_ptrs (ui, src, dst)) (rt\<lparr>invalidptr := invalidptr rt + 1\<rparr>), P)"
    by (simp add: out_of_rewrite_ptrs_def)
  from st show "InvalidUpper rt \<le> invalidptr rt + 1" by simp
qed

section \<open>Lemmas on the slab and on the indirect-call check\<close>

lemmas slab_defs = slab_def allocateSingle_def freeElement_def freeElement_body_def assertOkay_def
  c_assert_def getSlabSize_def isNodeAllocated_def isStartOfAllocation_def markNodeAllocated_def
  markNodeFree_def setStartBit_def clearStartBit_def flag_word_def set_flag_word_def Let_def

lemma find_msb_low: "find_msb 1 15 = Some 0"
  by code_simp

lemma lastNodeAllocated_trace: "lastNodeAllocated (slab 1 0 3 0x10001) 2 = Inr 0"
  by (simp add: lastNodeAllocated_def ContainsAllocatedNode_def slab_defs find_msb_low)

lemma freeElement_body_trace: "freeElement_body (slab 1 0 3 0x50005) 2 = Inr (slab 1 0 0 0x10001)"
  by (simp add: slab_defs free_run.simps lastNodeAllocated_trace [unfolded slab_def])

lemma funccheck_loop_eq:
  "unat num = unat i + length ap \<Longrightarrow>
   funccheck_loop i num f ap = (if f \<in> set ap then Return () else Abort)"
proof (induction ap arbitrary: i)
  case Nil
  then have "i = num" by (simp add: word_unat_eq_iff)
  then show ?case by simp
next
  case (Cons h ap)
  from Cons.prems have lt: "unat i < unat num" by simp
  then have ne: "i \<noteq> num" by auto
  have "unat num < 2 ^ 32" using unsigned_less [of num] by simp
  with lt have "unat i + 1 < 2 ^ 32" by simp
  then have "unat (i + 1) = unat i + 1" by (simp add: unat_word_ariths)
  with Cons.prems have "unat num = unat (i + 1) + length ap" by simp
  then have "funccheck_loop (i + 1) num f ap = (if f \<in> set ap then Return () else Abort)"
    by (rule Cons.IH)
  with ne show ?case by simp
qed

section \<open>Lemmas on the baggy-bounds engine\<close>

lemma unat_2p32: "sz < 32 \<Longrightarrow> unat (2 ^ sz :: 32 word) = 2 ^ sz"
proof -
  assume lt: "sz < 32"
  have "(2 ^ sz :: 32 word) = of_nat (2 ^ sz)" by simp
  then have "unat (2 ^ sz :: 32 word) = 2 ^ sz mod 2 ^ 32"
    by (simp only: unat_of_nat) simp
  moreover from lt have "(2::nat) ^ sz < 2 ^ 32" by (intro power_strict_increasing) simp_all
  ultimately show ?thesis by simp
qed

lemma unat_push_bit_1: "sz < 32 \<Longrightarrow> unat (push_bit sz 1 :: 32 word) = 2 ^ sz"
  by (simp add: push_bit_eq_mult unat_2p32)

lemma size_loop_spec:
  "sz \<le> 31 \<Longrightarrow> unat n \<le> 2 ^ 31 \<Longrightarrow>
   \<exists>s. size_loop n sz = Some s \<and> sz \<le> s \<and> s \<le> 31 \<and> unat n \<le> 2 ^ s
       \<and> (\<forall>k. sz \<le> k \<and> k < s \<longrightarrow> 2 ^ k < unat n)"
proof (induction n sz rule: size_loop.induct)
  case (1 NumBytes sz)
  from "1.prems" have lt: "sz < 32" by simp
  show ?case
  proof (cases "(push_bit sz 1 :: 32 word) < NumBytes")
    case True
    with lt have small: "2 ^ sz < unat NumBytes"
      by (simp add: word_less_nat_alt unat_2p32)
    have "sz \<noteq> 31"
    proof
      assume "sz = 31"
      with small "1.prems" show False by simp
    qed
    with "1.prems" have le: "Suc sz \<le> 31" by simp
    from lt True le "1.prems" obtain s where
      s: "size_loop NumBytes (Suc sz) = Some s" "Suc sz \<le> s" "s \<le> 31" "unat NumBytes \<le> 2 ^ s"
        "\<forall>k. Suc sz \<le> k \<and> k < s \<longrightarrow> 2 ^ k < unat NumBytes"
      using "1.IH" by (auto simp: not_le)
    have "\<forall>k. sz \<le> k \<and> k < s \<longrightarrow> 2 ^ k < unat NumBytes"
    proof (intro allI impI)
      fix k assume k: "sz \<le> k \<and> k < s"
      show "2 ^ k < unat NumBytes"
      proof (cases "k = sz")
        case True
        with small show ?thesis by simp
      next
        case False
        with k have "Suc sz \<le> k \<and> k < s" by simp
        with s(5) show ?thesis by blast
      qed
    qed
    moreover from lt True s(1) have "size_loop NumBytes sz = Some s"
      by (simp add: size_loop.simps [of NumBytes sz])
    ultimately show ?thesis using s(2-4) by auto
  next
    case False
    with lt have "unat NumBytes \<le> 2 ^ sz"
      by (simp add: word_less_nat_alt unat_2p32 not_less)
    moreover from lt False have "size_loop NumBytes sz = Some sz"
      by (simp add: size_loop.simps [of NumBytes sz])
    ultimately show ?thesis using "1.prems" by auto
  qed
qed

lemma size_class_spec:
  "unat n \<le> 2 ^ 31 \<Longrightarrow>
   \<exists>s. size_class n = Some s \<and> 4 \<le> s \<and> s \<le> 31 \<and> unat n \<le> 2 ^ s
       \<and> (\<forall>s'. 4 \<le> s' \<and> unat n \<le> 2 ^ s' \<longrightarrow> s \<le> s')"
proof -
  assume n: "unat n \<le> 2 ^ 31"
  from size_loop_spec [of 0 n] n obtain s0 where
    s0: "size_loop n 0 = Some s0" "s0 \<le> 31" "unat n \<le> 2 ^ s0"
      "\<forall>k. k < s0 \<longrightarrow> 2 ^ k < unat n"
    by auto
  let ?s = "if s0 < 4 then 4 else s0"
  have a: "size_class n = Some ?s" by (simp add: size_class_def s0(1) SLOT_SIZE_def)
  have b: "4 \<le> ?s \<and> ?s \<le> 31" using s0(2) by simp
  have "(2::nat) ^ s0 \<le> 2 ^ ?s" by (intro power_increasing) simp_all
  with s0(3) have c: "unat n \<le> 2 ^ ?s" by (rule order_trans)
  have d: "\<forall>s'. 4 \<le> s' \<and> unat n \<le> 2 ^ s' \<longrightarrow> ?s \<le> s'"
  proof (intro allI impI)
    fix s' assume h: "4 \<le> s' \<and> unat n \<le> 2 ^ s'"
    have "s0 \<le> s'"
    proof (rule ccontr)
      assume "\<not> s0 \<le> s'"
      then have "s' < s0" by simp
      with s0(4) have "2 ^ s' < unat n" by blast
      with h show False by simp
    qed
    with h show "?s \<le> s'" by simp
  qed
  from a b c d show ?thesis by blast
qed

lemma scast_not_mask:
  "sz \<le> 31 \<Longrightarrow> (scast (NOT (push_bit sz 1 - 1 :: 32 word)) :: 64 word) = NOT (mask sz)"
proof -
  assume sz: "sz \<le> 31"
  have m: "(push_bit sz 1 - 1 :: 32 word) = mask sz"
    by (simp add: push_bit_eq_mult mask_eq_exp_minus_1)
  show ?thesis unfolding m
    by (rule bit_eqI) (use sz in \<open>auto simp: bit_simps min_def\<close>)
qed

lemma aligned_test:
  "sz \<le> 31 \<Longrightarrow> ((p :: 64 word) AND scast (NOT (push_bit sz 1 - 1 :: 32 word)) = p) = (p AND mask sz = 0)"
proof -
  assume sz: "sz \<le> 31"
  have "(p AND NOT (mask sz) = p) = (p AND mask sz = 0)"
    by (auto simp: bit_eq_iff bit_simps)
  then show ?thesis by (simp only: scast_not_mask [OF sz])
qed

lemma memset_slot:
  "j < n \<Longrightarrow> n \<le> 2 ^ 60 \<Longrightarrow> memset m (s :: 64 word) c n (s + of_nat j) = c"
proof -
  assume j: "j < n" and n: "n \<le> 2 ^ 60"
  then have "j < 2 ^ 64" by simp
  then have "unat (of_nat j :: 64 word) = j" by (simp add: unat_of_nat)
  with j show ?thesis by (simp add: memset_def)
qed

lemma unat_2p64: "sz < 64 \<Longrightarrow> unat (2 ^ sz :: 64 word) = 2 ^ sz"
proof -
  assume lt: "sz < 64"
  have "(2 ^ sz :: 64 word) = of_nat (2 ^ sz)" by simp
  then have "unat (2 ^ sz :: 64 word) = 2 ^ sz mod 2 ^ 64"
    by (simp only: unat_of_nat) simp
  moreover from lt have "(2::nat) ^ sz < 2 ^ 64" by (intro power_strict_increasing) simp_all
  ultimately show ?thesis by simp
qed

lemma internal_register_aligned:
  "size_class n = Some s \<Longrightarrow> 4 \<le> s \<Longrightarrow> s \<le> 31 \<Longrightarrow> p AND mask s = 0 \<Longrightarrow>
   internal_register st p n =
     Inr (st\<lparr>size_table := memset (size_table st) (drop_bit 4 p) (of_nat s) (2 ^ (s - 4))\<rparr>)"
proof -
  assume c: "size_class n = Some s" and s4: "4 \<le> s" and s31: "s \<le> 31"
    and al: "p AND mask s = 0"
  from s31 al have t: "p AND scast (NOT (push_bit s 1 - 1 :: 32 word)) = p"
    by (simp only: aligned_test)
  from s31 have "s - 4 < 32" by simp
  then have u: "unat (push_bit (s - 4) 1 :: 32 word) = 2 ^ (s - 4)" by (rule unat_push_bit_1)
  show ?thesis
    by (simp only: internal_register_def c option.case Let_def t u SLOT_SIZE_def) simp
qed

lemma aligned_dvd: "(p :: 64 word) AND mask s = 0 \<Longrightarrow> 2 ^ s dvd unat p"
proof -
  assume "p AND mask s = 0"
  then have "take_bit s p = 0" by (simp add: take_bit_eq_mask)
  then have "unat (take_bit s p) = 0" by simp
  then have "take_bit s (unat p) = 0" by (simp add: unsigned_take_bit_eq)
  then show ?thesis by (simp add: take_bit_eq_0_iff)
qed

lemma slot_of_address:
  assumes s4: "4 \<le> s" and s64: "s < 64" and al: "(p :: 64 word) AND mask s = 0"
    and d: "unat (a - p) < 2 ^ s"
  shows "unat (drop_bit 4 a - drop_bit 4 p) < 2 ^ (s - 4)"
proof -
  obtain k where k: "unat p = 2 ^ s * k" using aligned_dvd [OF al] by (auto simp: dvd_def)
  have p64: "unat p < 2 ^ 64" using unsigned_less [of p] by simp
  have "unat p + 2 ^ s \<le> 2 ^ 64"
  proof -
    have "(2::nat) ^ 64 = 2 ^ s * 2 ^ (64 - s)" using s64 by (simp add: power_add [symmetric])
    with p64 k have "2 ^ s * k < (2::nat) ^ s * 2 ^ (64 - s)" by simp
    then have "k < 2 ^ (64 - s)" by simp
    then have "Suc k \<le> 2 ^ (64 - s)" by simp
    then have "2 ^ s * Suc k \<le> (2::nat) ^ s * 2 ^ (64 - s)" by (rule mult_le_mono2)
    with k \<open>(2::nat) ^ 64 = 2 ^ s * 2 ^ (64 - s)\<close> show ?thesis by simp
  qed
  with d have sum: "unat p + unat (a - p) < 2 ^ 64" by simp
  define e where "e = a - p"
  have ae: "a = p + e" by (simp add: e_def)
  from sum have "unat p + unat e < 2 ^ LENGTH(64)" by (simp add: e_def)
  then have "unat (p + e) = unat p + unat e" by (rule unat_add_lem [THEN iffD1])
  then have "unat a = unat p + unat e" by (simp only: ae [symmetric])
  then have ua: "unat a = unat p + unat (a - p)" by (simp only: e_def)
  have "(2::nat) ^ 4 dvd 2 ^ s" using s4 by (rule le_imp_power_dvd)
  with k have p16: "16 dvd unat p" by (simp add: dvd_def) (metis mult.assoc)
  have da: "unat (drop_bit 4 a) = unat a div 16"
    by (simp add: drop_bit_eq_div unat_div)
  have dp: "unat (drop_bit 4 p) = unat p div 16"
    by (simp add: drop_bit_eq_div unat_div)
  from ua p16 have split: "unat a div 16 = unat p div 16 + unat (a - p) div 16"
    by (simp add: div_plus_div_distrib_dvd_left)
  then have le: "drop_bit 4 p \<le> drop_bit 4 a" by (simp add: word_le_nat_alt da dp)
  then have "unat (drop_bit 4 a - drop_bit 4 p) = unat (drop_bit 4 a) - unat (drop_bit 4 p)"
    by (rule unat_sub)
  with da dp split have "unat (drop_bit 4 a - drop_bit 4 p) = unat (a - p) div 16" by simp
  moreover have "(2::nat) ^ s = 16 * 2 ^ (s - 4)"
  proof -
    have "(2::nat) ^ s = 2 ^ (4 + (s - 4))" using s4 by simp
    also have "\<dots> = 2 ^ 4 * 2 ^ (s - 4)" by (rule power_add)
    finally show ?thesis by simp
  qed
  ultimately show ?thesis using d by simp
qed

lemma ucast_2p: "s < 32 \<Longrightarrow> (ucast (push_bit s 1 :: 32 word) :: 64 word) = 2 ^ s"
proof -
  assume s: "s < 32"
  have "(ucast (push_bit s 1 :: 32 word) :: 64 word) = of_nat (unat (push_bit s 1 :: 32 word))"
    by simp
  also have "\<dots> = of_nat (2 ^ s)" using s by (simp only: unat_push_bit_1)
  finally show ?thesis by simp
qed

lemma size_class_5: "size_class 5 = Some 4"
  by (simp add: size_class_def size_loop.simps SLOT_SIZE_def)

lemma size_class_32: "size_class 32 = Some 5"
  by (simp add: size_class_def size_loop.simps SLOT_SIZE_def)

lemma size_class_big: "size_class 0x80000001 = None"
  by (simp add: size_class_def size_loop.simps SLOT_SIZE_def)

section \<open>Lemmas on copying\<close>

lemma copy_bytes_copied:
  "i < n \<Longrightarrow> n \<le> 2 ^ 32 \<Longrightarrow> copy_bytes m (dst :: 32 word) src n (dst + of_nat i) = m (src + of_nat i)"
proof -
  assume i: "i < n" and n: "n \<le> 2 ^ 32"
  then have "i < 2 ^ 32" by simp
  then have "unat (of_nat i :: 32 word) = i" by (simp add: unat_of_nat)
  with i show ?thesis by (simp add: copy_bytes_def)
qed

lemma copy_bytes_elsewhere: "n \<le> unat (a - dst) \<Longrightarrow> copy_bytes m dst src n a = m a"
  by (simp add: copy_bytes_def)

lemma memcpy_apart:
  "\<not> regions_overlap dst src n \<Longrightarrow> memcpy m dst src n = Some (copy_bytes m dst src n)"
  by (simp add: memcpy_def)

section \<open>Claims\<close>

text \<open>
  C10. When the pool handle is \<open>NULL\<close>, \<open>poolcheck\<close>, \<open>poolcheckui\<close>,
  \<open>poolregister\<close> and \<open>poolunregister\<close> return at once for every pointer argument:
  no index is consulted, the runtime state and the handle come back unchanged, nothing is
  written to \<open>stderr\<close> and the process is not aborted.
\<close>

theorem null_pool_noop:
  "poolcheck rt None q = (Return (), rt)
   \<and> poolcheckui rt None q = (Return (), rt)
   \<and> poolregister rt None p n = (rt, None)
   \<and> poolunregister rt None p = (rt, None)"
  by (simp add: poolcheck_def poolcheckui_def poolregister_def poolunregister_def)

text \<open>
  C2. After \<open>poolregister(P, p, n)\<close> on a pool \<open>P\<close>, with \<open>[p, p+n)\<close> inside the
  address space, \<open>poolcheck(P, q)\<close> returns without writing anything for every \<open>q\<close> in
  \<open>[p, p+n)\<close>; and for every \<open>q\<close> that no record of the pool covers, \<open>poolcheck(P, q)\<close>
  writes its failure message and aborts.
\<close>

theorem register_then_poolcheck:
  "poolregister rt (Some P) p n = (rt', Some P') \<Longrightarrow> fits p n \<Longrightarrow>
   (in_object p n q \<longrightarrow> poolcheck rt' (Some P') q = (Return (), rt'))
   \<and> ((\<forall>r \<in> set (Objects P'). \<not> covers r q) \<longrightarrow>
        poolcheck rt' (Some P') q = (Abort, fprintf Poolcheck_failed rt'))"
proof (intro conjI impI)
  assume reg: "poolregister rt (Some P) p n = (rt', Some P')" and f: "fits p n"
  from reg have obj: "Objects P' = adl_splay_insert (Objects P) p n 0"
    by (auto simp: poolregister_def Let_def)
  { assume io: "in_object p n q"
    then have "splay_find (Objects P') q 0 0 = (True, p, n, 0)"
      by (simp add: obj splay_find_Some retrieve_insert_hit)
    moreover from f io have "p \<le> q \<and> p + n > q" by (simp add: fits_word_interval)
    ultimately show "poolcheck rt' (Some P') q = (Return (), rt')"
      by (simp add: poolcheck_def) }
  { assume "\<forall>r \<in> set (Objects P'). \<not> covers r q"
    then have "adl_splay_retrieve (Objects P') q = None" by (simp add: retrieve_None_iff)
    then have "splay_find (Objects P') q 0 0 = (False, q, 0, 0)" by (rule splay_find_None)
    then show "poolcheck rt' (Some P') q = (Abort, fprintf Poolcheck_failed rt')"
      by (simp add: poolcheck_def) }
qed

theorem register_then_poolcheck_witness:
  "poolregister rt0 (Some pool0) 0x1000 16 = (rt0, Some (pool0\<lparr>Objects := [(0x1000, 16, 0)]\<rparr>))
   \<and> fits 0x1000 16 \<and> in_object 0x1000 16 0x1008
   \<and> poolcheck rt0 (Some (pool0\<lparr>Objects := [(0x1000, 16, 0)]\<rparr>)) 0x1008 = (Return (), rt0)
   \<and> poolcheck rt0 (Some (pool0\<lparr>Objects := [(0x1000, 16, 0)]\<rparr>)) 0x2000 = (Abort, fprintf Poolcheck_failed rt0)"
proof -
  have a: "poolregister rt0 (Some pool0) 0x1000 16 = (rt0, Some (pool0\<lparr>Objects := [(0x1000, 16, 0)]\<rparr>))"
    by (simp add: poolregister_def logregs_def adl_splay_insert_def pool0_def)
  have b: "fits 0x1000 16" by (simp add: fits_def)
  have c: "in_object 0x1000 16 0x1008" by (simp add: in_object_def)
  have d: "\<forall>r \<in> set (Objects (pool0\<lparr>Objects := [(0x1000, 16, 0)]\<rparr>)). \<not> covers r 0x2000"
    by (simp add: covers_def)
  from register_then_poolcheck [OF a b, of "0x1008"] register_then_poolcheck [OF a b, of "0x2000"] a b c d
  show ?thesis by blast
qed

text \<open>
  C7. For a pool \<open>P\<close> whose records, like the external ones, lie inside the address
  space: \<open>poolcheckui(P, p)\<close> returns without writing anything when \<open>p\<close> lies within
  a record of \<open>P\<close> or within a registered external object; when neither index covers
  \<open>p\<close> it writes a warning and still returns, where \<open>poolcheck\<close> writes its failure
  message and aborts.
\<close>

theorem poolcheckui_ok_or_warns:
  "fits_all (Objects P) \<Longrightarrow> fits_all (ExternalObjects rt) \<Longrightarrow>
   (((\<exists>r \<in> set (Objects P). covers r q) \<or> (\<exists>r \<in> set (ExternalObjects rt). covers r q)) \<longrightarrow>
        poolcheckui rt (Some P) q = (Return (), rt))
   \<and> (((\<forall>r \<in> set (Objects P). \<not> covers r q) \<and> (\<forall>r \<in> set (ExternalObjects rt). \<not> covers r q)) \<longrightarrow>
        poolcheckui rt (Some P) q = (Return (), fprintf PoolcheckUI_failed rt)
        \<and> poolcheck rt (Some P) q = (Abort, fprintf Poolcheck_failed rt))"
proof -
  assume fp: "fits_all (Objects P)" and fe: "fits_all (ExternalObjects rt)"
  have ui: "poolcheckui rt (Some P) q =
      (if (\<exists>r \<in> set (Objects P). covers r q) \<or> (\<exists>r \<in> set (ExternalObjects rt). covers r q)
       then (Return (), rt) else (Return (), fprintf PoolcheckUI_failed rt))"
    using splay_check [OF fp, of q 0 0] splay_check [OF fe, of q 0 0]
    by (auto simp: poolcheckui_def split: prod.splits)
  have ck: "poolcheck rt (Some P) q =
      (if (\<exists>r \<in> set (Objects P). covers r q) then (Return (), rt)
       else (Abort, fprintf Poolcheck_failed rt))"
    using splay_check [OF fp, of q 0 0]
    by (auto simp: poolcheck_def split: prod.splits)
  show ?thesis by (simp add: ui ck)
qed

theorem poolcheckui_ok_or_warns_witness:
  "fits_all (Objects pool1) \<and> fits_all (ExternalObjects rt_ext)
   \<and> poolcheckui rt_ext (Some pool1) 0x1004 = (Return (), rt_ext)
   \<and> poolcheckui rt_ext (Some pool1) 0x5004 = (Return (), rt_ext)
   \<and> poolcheckui rt_ext (Some pool1) 0x9000 = (Return (), fprintf PoolcheckUI_failed rt_ext)
   \<and> poolcheck rt_ext (Some pool1) 0x9000 = (Abort, fprintf Poolcheck_failed rt_ext)"
proof -
  have h1: "fits_all (Objects pool1)" by (simp add: fits_all_def fits_def pool1_def)
  have h2: "fits_all (ExternalObjects rt_ext)" by (simp add: fits_all_def fits_def rt_ext_def)
  have g1: "\<exists>r \<in> set (Objects pool1). covers r 0x1004" by (simp add: pool1_def covers_def)
  have g2: "\<exists>r \<in> set (ExternalObjects rt_ext). covers r 0x5004"
    by (simp add: rt_ext_def covers_def)
  have g3: "(\<forall>r \<in> set (Objects pool1). \<not> covers r 0x9000)
     \<and> (\<forall>r \<in> set (ExternalObjects rt_ext). \<not> covers r 0x9000)"
    by (simp add: pool1_def rt_ext_def covers_def)
  from poolcheckui_ok_or_warns [OF h1 h2, of "0x1004"] g1
  have r1: "poolcheckui rt_ext (Some pool1) 0x1004 = (Return (), rt_ext)" by blast
  from poolcheckui_ok_or_warns [OF h1 h2, of "0x5004"] g2
  have r2: "poolcheckui rt_ext (Some pool1) 0x5004 = (Return (), rt_ext)" by blast
  from poolcheckui_ok_or_warns [OF h1 h2, of "0x9000"] g3
  have r3: "poolcheckui rt_ext (Some pool1) 0x9000 = (Return (), fprintf PoolcheckUI_failed rt_ext)
     \<and> poolcheck rt_ext (Some pool1) 0x9000 = (Abort, fprintf Poolcheck_failed rt_ext)"
    by blast
  from h1 h2 r1 r2 r3 show ?thesis by blast
qed

text \<open>
  C1, as stated, fails. The claim has \<open>boundscheck\<close> return \<open>dst\<close> when \<open>dst\<close> is
  one past the end of the object, and a rewrite pointer for every other destination
  outside the object. With the object \<open>[0x1000, 0x1010)\<close> and a fresh cursor, the
  one-past-the-end destination \<open>0x1010\<close> comes back as the rewrite pointer
  \<open>0x40000001\<close>, and the destination \<open>0x1020\<close> aborts the process.
\<close>

theorem boundscheck_counterexample:
  "fst (boundscheck rt0 pool1 0x1000 0x1010) = Return 0x40000001
   \<and> fst (boundscheck rt0 pool1 0x1000 0x1020) = Abort"
  by (simp add: boundscheck_def splay_find_def adl_splay_retrieve_def covers_def pool1_def
      rt0_def rewrite_ptr_def logregs_def Let_def fprintf_def)

text \<open>
  C1, amended. Let the pool hold disjoint records, one of them \<open>[base, base+len)\<close>
  inside the address space and containing \<open>src\<close>, and let the rewrite cursor be in
  order. Then \<open>boundscheck\<close> returns \<open>dst\<close> unchanged when \<open>dst\<close> lies in the same
  object. When \<open>dst = base+len\<close> it returns the next cursor value \<open>r\<close>, which lies
  strictly between \<open>InvalidLower\<close> and \<open>InvalidUpper\<close> and for which
  \<open>pchk_getActualValue\<close> in the resulting state gives back \<open>dst\<close>; unless that value
  fails the mask test, in which case it writes a message and returns \<open>dst\<close>. For every
  other \<open>dst\<close> it writes a message and aborts.
\<close>

theorem boundscheck_cases:
  "disjoint_index (Objects P) \<Longrightarrow> (base, len, t) \<in> set (Objects P) \<Longrightarrow> fits base len \<Longrightarrow>
   in_object base len src \<Longrightarrow> cursor_ok rt \<Longrightarrow> InvalidUpper rt \<noteq> 0 \<Longrightarrow>
   (in_object base len dst \<longrightarrow> boundscheck rt P src dst = (Return dst, rt, P))
   \<and> (dst = base + len \<and> next_invalidptr rt AND NOT (InvalidUpper rt - 1) = 0 \<longrightarrow>
        (\<exists>rt' P'. boundscheck rt P src dst = (Return (next_invalidptr rt), rt', P')
           \<and> InvalidLower rt < next_invalidptr rt \<and> next_invalidptr rt < InvalidUpper rt
           \<and> pchk_getActualValue rt' P' (next_invalidptr rt) = (Return dst, rt')))
   \<and> (dst = base + len \<and> next_invalidptr rt AND NOT (InvalidUpper rt - 1) \<noteq> 0 \<longrightarrow>
        boundscheck rt P src dst =
          (Return dst, fprintf Boundscheck_out_of_rewrite_ptrs (rt\<lparr>invalidptr := next_invalidptr rt\<rparr>), P))
   \<and> (\<not> in_object base len dst \<and> dst \<noteq> base + len \<longrightarrow>
        boundscheck rt P src dst = (Abort, fprintf Boundscheck_failed_out_of_object rt, P))"
proof -
  assume dj: "disjoint_index (Objects P)" and mem: "(base, len, t) \<in> set (Objects P)"
    and f: "fits base len" and src: "in_object base len src" and c: "cursor_ok rt"
    and u: "InvalidUpper rt \<noteq> 0"
  from dj mem src have r: "adl_splay_retrieve (Objects P) src = Some (base, len, t)"
    by (simp add: live_record_retrieve covers_in_object)
  note bc = boundscheck_found [OF r f]
  from f have ope: "\<not> in_object base len (base + len)" by (rule one_past_end_outside)
  have a: "in_object base len dst \<longrightarrow> boundscheck rt P src dst = (Return dst, rt, P)"
    by (simp add: bc)
  have b: "dst = base + len \<and> next_invalidptr rt AND NOT (InvalidUpper rt - 1) = 0 \<longrightarrow>
        (\<exists>rt' P'. boundscheck rt P src dst = (Return (next_invalidptr rt), rt', P')
           \<and> InvalidLower rt < next_invalidptr rt \<and> next_invalidptr rt < InvalidUpper rt
           \<and> pchk_getActualValue rt' P' (next_invalidptr rt) = (Return dst, rt'))"
  proof
    assume h: "dst = base + len \<and> next_invalidptr rt AND NOT (InvalidUpper rt - 1) = 0"
    let ?r = "next_invalidptr rt"
    let ?rt = "rt\<lparr>invalidptr := ?r\<rparr>"
    let ?P = "P\<lparr>OOB := adl_splay_insert (OOB P) ?r 1 dst\<rparr>"
    from h ope have e: "boundscheck rt P src dst = (Return ?r, ?rt, ?P)"
      by (simp add: bc rewrite_ptr_eq)
    from c have lo: "InvalidLower rt < ?r" by (rule next_above_lower)
    from h u have hi: "?r < InvalidUpper rt" by (simp add: mask_test_less)
    from lo h have "pchk_getActualValue ?rt ?P ?r = (Return dst, ?rt)"
      by (intro getActualValue_minted) simp_all
    with e lo hi show "\<exists>rt' P'. boundscheck rt P src dst = (Return ?r, rt', P')
           \<and> InvalidLower rt < ?r \<and> ?r < InvalidUpper rt
           \<and> pchk_getActualValue rt' P' ?r = (Return dst, rt')"
      by blast
  qed
  have d: "dst = base + len \<and> next_invalidptr rt AND NOT (InvalidUpper rt - 1) \<noteq> 0 \<longrightarrow>
        boundscheck rt P src dst =
          (Return dst, fprintf Boundscheck_out_of_rewrite_ptrs (rt\<lparr>invalidptr := next_invalidptr rt\<rparr>), P)"
    using ope by (simp add: bc rewrite_ptr_eq)
  have e: "\<not> in_object base len dst \<and> dst \<noteq> base + len \<longrightarrow>
        boundscheck rt P src dst = (Abort, fprintf Boundscheck_failed_out_of_object rt, P)"
    by (simp add: bc)
  from a b d e show ?thesis by blast
qed

theorem boundscheck_cases_witness:
  "disjoint_index (Objects pool1) \<and> (0x1000, 16, 0) \<in> set (Objects pool1) \<and> fits 0x1000 16
   \<and> in_object 0x1000 16 0x1004 \<and> cursor_ok rt0 \<and> InvalidUpper rt0 \<noteq> 0
   \<and> in_object 0x1000 16 0x100F
   \<and> boundscheck rt0 pool1 0x1004 0x100F = (Return 0x100F, rt0, pool1)
   \<and> next_invalidptr rt0 AND NOT (InvalidUpper rt0 - 1) = 0
   \<and> fst (boundscheck rt0 pool1 0x1004 0x1010) = Return (next_invalidptr rt0)
   \<and> InvalidLower rt0 < next_invalidptr rt0 \<and> next_invalidptr rt0 < InvalidUpper rt0
   \<and> \<not> in_object 0x1000 16 0x1020
   \<and> boundscheck rt0 pool1 0x1004 0x1020 = (Abort, fprintf Boundscheck_failed_out_of_object rt0, pool1)"
proof -
  have h1: "disjoint_index (Objects pool1)" by (simp add: pool1_def)
  have h2: "(0x1000, 16, 0) \<in> set (Objects pool1)" by (simp add: pool1_def)
  have h3: "fits 0x1000 16" by (simp add: fits_def)
  have h4: "in_object 0x1000 16 0x1004" by (simp add: in_object_def)
  have h5: "cursor_ok rt0" by (simp add: cursor_ok_def cursor_def rt0_def)
  have h6: "InvalidUpper rt0 \<noteq> 0" by (simp add: rt0_def)
  have g1: "in_object 0x1000 16 0x100F" by (simp add: in_object_def)
  have g2: "(0x1010 :: ptr) = 0x1000 + 16 \<and> next_invalidptr rt0 AND NOT (InvalidUpper rt0 - 1) = 0"
    by (simp add: next_invalidptr_def cursor_def rt0_def)
  have g3: "\<not> in_object 0x1000 16 0x1020 \<and> (0x1020 :: ptr) \<noteq> 0x1000 + 16"
    by (simp add: in_object_def)
  from boundscheck_cases [OF h1 h2 h3 h4 h5 h6, of "0x100F"] g1
  have r1: "boundscheck rt0 pool1 0x1004 0x100F = (Return 0x100F, rt0, pool1)" by blast
  from boundscheck_cases [OF h1 h2 h3 h4 h5 h6, of "0x1010"] g2
  obtain rt' P' where "boundscheck rt0 pool1 0x1004 0x1010 = (Return (next_invalidptr rt0), rt', P')"
    and r2b: "InvalidLower rt0 < next_invalidptr rt0 \<and> next_invalidptr rt0 < InvalidUpper rt0"
    by blast
  then have r2a: "fst (boundscheck rt0 pool1 0x1004 0x1010) = Return (next_invalidptr rt0)"
    by simp
  from boundscheck_cases [OF h1 h2 h3 h4 h5 h6, of "0x1020"] g3
  have r3: "boundscheck rt0 pool1 0x1004 0x1020 = (Abort, fprintf Boundscheck_failed_out_of_object rt0, pool1)"
    by blast
  from h1 h2 h3 h4 h5 h6 g1 g2 g3 r1 r2a r2b r3 show ?thesis by blast
qed



text \<open>
  C6, as stated, fails. The claim has the runtime abort in strict mode once the cursor
  has left the reserved region. \<open>boundscheck\<close> and \<open>boundscheckui\<close> read no mode:
  the \<open>abort()\<close> on that path is compiled out, and with the cursor at \<open>InvalidUpper\<close>
  both return the destination, which is not what the spec's words give for strict mode.
  And a destination further out than one past the end makes \<open>boundscheck\<close> abort,
  which is not what they give for permissive mode; nor is the \<open>NULL\<close> that comes
  back when the cursor is at the last address and the increment wraps.
\<close>

theorem exhausted_strict_counterexample:
  "fst (boundscheck rt_full pool1 0x1000 0x1010) \<noteq> spec_exhausted_result True 0x1010
   \<and> fst (boundscheckui rt_full pool1 0x1000 0x1010) \<noteq> spec_exhausted_result True 0x1010
   \<and> fst (boundscheck rt_full pool1 0x1000 0x1020) \<noteq> spec_exhausted_result False 0x1020
   \<and> fst (boundscheck rt_last pool1 0x1000 0x1010) \<noteq> spec_exhausted_result False 0x1010"
  by (simp add: boundscheck_def boundscheckui_def splay_find_def adl_splay_retrieve_def covers_def
      pool1_def rt_full_def rt_last_def rewrite_ptr_def logregs_def Let_def fprintf_def
      spec_exhausted_result_def)

text \<open>
  C6, amended. Let \<open>InvalidUpper\<close> be a power of two and let the cursor have reached
  it. Take any run of later calls of \<open>boundscheck\<close> and \<open>boundscheckui\<close>, each on a
  destination one past the end of its source's object, that is short enough for the
  cursor to stay below the last address (the cursor plus the number of calls is below
  \<open>2^32\<close>). Then every call of the run returns the true pointer \<open>dst\<close>, whatever the
  mode; each advances the cursor by one and writes its out-of-rewrite-pointers message,
  and the pool is left as it was, with no rewrite recorded.
\<close>

theorem exhausted_cursor_returns_dest:
  "InvalidUpper rt = 2 ^ k \<Longrightarrow> k < 32 \<Longrightarrow> InvalidUpper rt \<le> invalidptr rt \<Longrightarrow>
   unat (invalidptr rt) + length cs < 2 ^ 32 \<Longrightarrow> disjoint_index (Objects P) \<Longrightarrow>
   list_all (\<lambda>c. past_end P (fst (snd c)) (snd (snd c))) cs \<Longrightarrow>
   check_calls rt P cs =
     (map (\<lambda>c. Return (snd (snd c))) cs,
      rt\<lparr>stderr := stderr rt @ map out_of_rewrite_ptrs cs,
         invalidptr := invalidptr rt + of_nat (length cs)\<rparr>, P)"
proof (induction cs arbitrary: rt)
  case Nil
  then show ?case by simp
next
  case (Cons c cs)
  obtain ui src dst where c: "c = (ui, src, dst)" by (cases c)
  from Cons.prems(4) have lt: "unat (invalidptr rt) + 1 < 2 ^ 32" by simp
  then have w: "invalidptr rt \<noteq> - 1" by (auto simp: unsigned_minus_1_eq_mask mask_eq_exp_minus_1)
  from lt have su: "unat (invalidptr rt + 1) = unat (invalidptr rt) + 1"
    by (simp add: unat_word_ariths)
  from Cons.prems(6) c have pe: "past_end P src dst" by simp
  let ?rt1 = "fprintf (out_of_rewrite_ptrs (ui, src, dst)) (rt\<lparr>invalidptr := invalidptr rt + 1\<rparr>)"
  note call1 = exhausted_call(1) [OF Cons.prems(1) Cons.prems(2) Cons.prems(3) w Cons.prems(5) pe, of ui]
  note call2 = exhausted_call(2) [OF Cons.prems(1) Cons.prems(2) Cons.prems(3) w Cons.prems(5) pe]
  have h1: "InvalidUpper ?rt1 = 2 ^ k" using Cons.prems(1) by (simp add: fprintf_def)
  have h3: "InvalidUpper ?rt1 \<le> invalidptr ?rt1" using call2 by (simp add: fprintf_def)
  have h4: "unat (invalidptr ?rt1) + length cs < 2 ^ 32"
    using Cons.prems(4) su by (simp add: fprintf_def)
  from Cons.prems(6) have h6: "list_all (\<lambda>c. past_end P (fst (snd c)) (snd (snd c))) cs"
    by simp
  note ih = Cons.IH [OF h1 Cons.prems(2) h3 h4 Cons.prems(5) h6]
  have "check_calls rt P (c # cs) =
     (Return dst # map (\<lambda>c. Return (snd (snd c))) cs,
      ?rt1\<lparr>stderr := stderr ?rt1 @ map out_of_rewrite_ptrs cs,
           invalidptr := invalidptr ?rt1 + of_nat (length cs)\<rparr>, P)"
    unfolding c check_calls.simps call1 prod.case outcome.case by (subst ih) simp
  then show ?case by (simp add: c fprintf_def add.assoc add.commute)
qed

theorem exhausted_cursor_returns_dest_witness:
  "InvalidUpper rt_full = 2 ^ 31 \<and> (31::nat) < 32 \<and> InvalidUpper rt_full \<le> invalidptr rt_full
   \<and> unat (invalidptr rt_full) + length [(False, 0x1004 :: ptr, 0x1010 :: ptr), (True, 0x1008, 0x1010)]
        < 2 ^ 32
   \<and> disjoint_index (Objects pool1)
   \<and> past_end pool1 0x1004 0x1010 \<and> past_end pool1 0x1008 0x1010
   \<and> check_calls rt_full pool1 [(False, 0x1004, 0x1010), (True, 0x1008, 0x1010)] =
        ([Return 0x1010, Return 0x1010],
         rt_full\<lparr>stderr := [Boundscheck_out_of_rewrite_ptrs, Boundscheckui_out_of_rewrite_ptrs],
                 invalidptr := 0x80000002\<rparr>, pool1)"
proof -
  let ?cs = "[(False, 0x1004 :: ptr, 0x1010 :: ptr), (True, 0x1008, 0x1010)]"
  have h1: "InvalidUpper rt_full = 2 ^ 31" by (simp add: rt_full_def)
  have h2: "(31::nat) < 32" by simp
  have h3: "InvalidUpper rt_full \<le> invalidptr rt_full" by (simp add: rt_full_def)
  have h4: "unat (invalidptr rt_full) + length ?cs < 2 ^ 32" by (simp add: rt_full_def)
  have h5: "disjoint_index (Objects pool1)" by (simp add: pool1_def)
  have pe: "past_end pool1 0x1004 0x1010 \<and> past_end pool1 0x1008 0x1010"
    by (simp add: past_end_def pool1_def fits_def in_object_def)
  then have h6: "list_all (\<lambda>c. past_end pool1 (fst (snd c)) (snd (snd c))) ?cs" by simp
  from exhausted_cursor_returns_dest [OF h1 h2 h3 h4 h5 h6]
  have "check_calls rt_full pool1 ?cs =
        ([Return 0x1010, Return 0x1010],
         rt_full\<lparr>stderr := [Boundscheck_out_of_rewrite_ptrs, Boundscheckui_out_of_rewrite_ptrs],
                 invalidptr := 0x80000002\<rparr>, pool1)"
    by (simp add: out_of_rewrite_ptrs_def rt_full_def)
  with h1 h2 h3 h4 h5 pe show ?thesis by blast
qed

text \<open>
  C5. The claim has the cursor invariant \<open>FirstUnused \<le> UsedEnd\<close> preserved by
  \<open>freeElement\<close>. The code at a slab of four nodes: three \<open>allocateSingle\<close> calls
  take nodes 0, 1 and 2; \<open>freeElement(1)\<close> sets \<open>FirstUnused\<close> to 1; then
  \<open>freeElement(2)\<close> frees the last run and sets \<open>UsedEnd\<close> to the value of
  \<open>lastNodeAllocated(2)\<close>, which is 0, the number of the last allocated node rather
  than one past it. The method's body ends with \<open>FirstUnused = 1\<close> and
  \<open>UsedEnd = 0\<close>, and its closing \<open>assertOkay()\<close> fails on
  \<open>FirstUnused <= UsedEnd\<close>.
\<close>

theorem freeElement_breaks_cursor_invariant:
  "create 4 [0] = slab 0 0 0 0
   \<and> allocateSingle (slab 0 0 0 0) = Inr (0, slab 1 0 1 0x10001)
   \<and> allocateSingle (slab 1 0 1 0x10001) = Inr (1, slab 2 0 2 0x30003)
   \<and> allocateSingle (slab 2 0 2 0x30003) = Inr (2, slab 3 0 3 0x70007)
   \<and> freeElement (slab 3 0 3 0x70007) 1 = Inr (slab 1 0 3 0x50005)
   \<and> freeElement_body (slab 1 0 3 0x50005) 2 = Inr (slab 1 0 0 0x10001)
   \<and> freeElement (slab 1 0 3 0x50005) 2 = Inl (Assertion_failed FirstUnused_le_UsedEnd)"
proof -
  have c0: "create 4 [0] = slab 0 0 0 0"
    by (simp add: create_def upt_rec slab_defs)
  have a1: "allocateSingle (slab 0 0 0 0) = Inr (0, slab 1 0 1 0x10001)"
    by (simp add: slab_defs)
  have a2: "allocateSingle (slab 1 0 1 0x10001) = Inr (1, slab 2 0 2 0x30003)"
    by (simp add: slab_defs)
  have a3: "allocateSingle (slab 2 0 2 0x30003) = Inr (2, slab 3 0 3 0x70007)"
    by (simp add: slab_defs)
  have f1: "freeElement (slab 3 0 3 0x70007) 1 = Inr (slab 1 0 3 0x50005)"
    by (simp add: slab_defs free_run.simps)
  have f2: "freeElement (slab 1 0 3 0x50005) 2 = Inl (Assertion_failed FirstUnused_le_UsedEnd)"
    using freeElement_body_trace
    by (simp add: freeElement_def assertOkay_def c_assert_def slab_def isNodeAllocated_def
        flag_word_def)
  from c0 a1 a2 a3 f1 freeElement_body_trace f2 show ?thesis by simp
qed

text \<open>
  C9. For a call \<open>funccheck(n, f, f0, ..., fn-1)\<close> that passes its \<open>n\<close> candidates
  (the first as \<open>g\<close>, the others as the variadic arguments): when \<open>f\<close> equals one of
  them the call returns and the state is unchanged; when \<open>f\<close> equals none of them it
  aborts. So it returns exactly when \<open>f\<close> is listed.
\<close>

theorem funccheck_iff_listed:
  "unat num = Suc (length ap) \<Longrightarrow>
   (f \<in> set (g # ap) \<longrightarrow> funccheck rt num f g ap = (Return (), rt))
   \<and> (f \<notin> set (g # ap) \<longrightarrow> funccheck rt num f g ap = (Abort, rt))"
proof -
  assume n: "unat num = Suc (length ap)"
  then have "unat num = unat (1 :: 32 word) + length ap" by simp
  then have "funccheck_loop 1 num f ap = (if f \<in> set ap then Return () else Abort)"
    by (rule funccheck_loop_eq)
  then show ?thesis by (simp add: funccheck_def logregs_def)
qed

theorem funccheck_iff_listed_witness:
  "unat (3 :: 32 word) = Suc (length [0x2000, 0x3000 :: ptr])
   \<and> funccheck rt0 3 0x1000 0x1000 [0x2000, 0x3000] = (Return (), rt0)
   \<and> funccheck rt0 3 0x3000 0x1000 [0x2000, 0x3000] = (Return (), rt0)
   \<and> funccheck rt0 3 0x4000 0x1000 [0x2000, 0x3000] = (Abort, rt0)"
proof -
  have n: "unat (3 :: 32 word) = Suc (length [0x2000, 0x3000 :: ptr])" by simp
  from funccheck_iff_listed [OF n, of "0x1000" "0x1000" rt0]
  have a: "funccheck rt0 3 0x1000 0x1000 [0x2000, 0x3000] = (Return (), rt0)" by simp
  from funccheck_iff_listed [OF n, of "0x3000" "0x1000" rt0]
  have b: "funccheck rt0 3 0x3000 0x1000 [0x2000, 0x3000] = (Return (), rt0)" by simp
  from funccheck_iff_listed [OF n, of "0x4000" "0x1000" rt0]
  have c: "funccheck rt0 3 0x4000 0x1000 [0x2000, 0x3000] = (Abort, rt0)" by simp
  from n a b c show ?thesis by blast
qed

text \<open>
  C4, as stated, fails. The claim has the baggy engine's alloc write the size class into
  the shadow table, for every request. \<open>__sc_bb_src_poolalloc(5)\<close> returns the block
  that \<open>posix_memalign\<close> gave and leaves the table as it was, so the slot of the block
  still holds 0; and for a request above \<open>2^31\<close> the size loop reaches a shift by 32.
\<close>

theorem baggy_alloc_counterexample:
  "sc_bb_src_poolalloc libc0 bb0 5 = Inr (Some 0x10000, bb0)
   \<and> size_table bb0 (drop_bit 4 0x10000) = 0
   \<and> sc_bb_src_poolalloc libc0 bb0 0x80000001 = Inl Undefined_shift"
  by (simp add: sc_bb_src_poolalloc_def size_class_5 size_class_big libc0_def bb0_def)

text \<open>
  C4, amended. For every request \<open>n \<le> 2^31\<close> the size class \<open>s\<close> is the smallest
  \<open>s \<ge> 4\<close> with \<open>2^s \<ge> n\<close>; \<open>__sc_bb_src_poolalloc\<close> asks \<open>posix_memalign\<close>
  for a block of alignment \<open>2^s\<close> and exactly \<open>2^s\<close> bytes, returns what it gives and
  changes nothing else; and the registration that follows an allocation,
  \<open>__internal_register(p, n)\<close> on a \<open>2^s\<close>-aligned \<open>p\<close>, writes \<open>s\<close> into all
  \<open>2^(s-4)\<close> slots of the block, so that \<open>table[a >> 4] = s\<close> for every address
  \<open>a\<close> of the block. For \<open>n = 5\<close> the class is 4 and \<open>table[p >> 4] = 4\<close>.
\<close>

theorem baggy_alloc_then_register:
  "unat n \<le> 2 ^ 31 \<Longrightarrow>
   \<exists>s. size_class n = Some s \<and> 4 \<le> s \<and> unat n \<le> 2 ^ s
     \<and> (\<forall>s'. 4 \<le> s' \<and> unat n \<le> 2 ^ s' \<longrightarrow> s \<le> s')
     \<and> sc_bb_src_poolalloc lc st n =
         Inr (fst (posix_memalign lc (libc_heap st) (2 ^ s) (2 ^ s)),
              st\<lparr>libc_heap := snd (posix_memalign lc (libc_heap st) (2 ^ s) (2 ^ s))\<rparr>)
     \<and> (\<forall>p (st1 :: 'c bb_state). p AND mask s = 0 \<longrightarrow>
          (\<exists>st2. internal_register st1 p n = Inr st2
             \<and> (\<forall>j < 2 ^ (s - 4). size_table st2 (drop_bit 4 p + of_nat j) = of_nat s)
             \<and> (\<forall>a. unat (a - p) < 2 ^ s \<longrightarrow> size_table st2 (drop_bit 4 a) = of_nat s)))"
proof -
  assume n: "unat n \<le> 2 ^ 31"
  from size_class_spec [OF n] obtain s where
    s: "size_class n = Some s" "4 \<le> s" "s \<le> 31" "unat n \<le> 2 ^ s"
      "\<forall>s'. 4 \<le> s' \<and> unat n \<le> 2 ^ s' \<longrightarrow> s \<le> s'"
    by blast
  from s(3) have s32: "s < 32" by simp
  have al: "sc_bb_src_poolalloc lc st n =
         Inr (fst (posix_memalign lc (libc_heap st) (2 ^ s) (2 ^ s)),
              st\<lparr>libc_heap := snd (posix_memalign lc (libc_heap st) (2 ^ s) (2 ^ s))\<rparr>)"
    by (simp only: sc_bb_src_poolalloc_def s(1) option.case Let_def ucast_2p [OF s32])
       (simp add: split_beta)
  have reg: "\<forall>p (st1 :: 'c bb_state). p AND mask s = 0 \<longrightarrow>
          (\<exists>st2. internal_register st1 p n = Inr st2
             \<and> (\<forall>j < 2 ^ (s - 4). size_table st2 (drop_bit 4 p + of_nat j) = of_nat s)
             \<and> (\<forall>a. unat (a - p) < 2 ^ s \<longrightarrow> size_table st2 (drop_bit 4 a) = of_nat s))"
  proof (intro allI impI)
    fix p :: addr and st1 :: "'c bb_state"
    assume p: "p AND mask s = 0"
    let ?t = "memset (size_table st1) (drop_bit 4 p) (of_nat s) (2 ^ (s - 4))"
    have r: "internal_register st1 p n = Inr (st1\<lparr>size_table := ?t\<rparr>)"
      using s(1) s(2) s(3) p by (rule internal_register_aligned)
    have "(2::nat) ^ (s - 4) \<le> 2 ^ 60" using s(3) by (intro power_increasing) simp_all
    then have a: "\<forall>j < 2 ^ (s - 4). ?t (drop_bit 4 p + of_nat j) = of_nat s"
      by (simp add: memset_slot)
    have b: "\<forall>a. unat (a - p) < 2 ^ s \<longrightarrow> ?t (drop_bit 4 a) = of_nat s"
    proof (intro allI impI)
      fix a assume d: "unat (a - p) < 2 ^ s"
      have s64: "s < 64" using s(3) by simp
      have "unat (drop_bit 4 a - drop_bit 4 p) < 2 ^ (s - 4)"
        by (rule slot_of_address [OF s(2) s64 p d])
      then show "?t (drop_bit 4 a) = of_nat s" by (simp add: memset_def)
    qed
    from r a b show "\<exists>st2. internal_register st1 p n = Inr st2
             \<and> (\<forall>j < 2 ^ (s - 4). size_table st2 (drop_bit 4 p + of_nat j) = of_nat s)
             \<and> (\<forall>a. unat (a - p) < 2 ^ s \<longrightarrow> size_table st2 (drop_bit 4 a) = of_nat s)"
      by simp
  qed
  from s(1) s(2) s(4) s(5) al reg show ?thesis by blast
qed

theorem baggy_alloc_then_register_witness:
  "unat (5 :: 32 word) \<le> 2 ^ 31 \<and> size_class 5 = Some 4
   \<and> sc_bb_src_poolalloc libc0 bb0 5 = Inr (Some 0x10000, bb0)
   \<and> (0x10000 :: addr) AND mask 4 = 0
   \<and> (\<exists>st2. internal_register bb0 0x10000 5 = Inr st2
         \<and> size_table st2 (drop_bit 4 0x10000) = 4)"
proof -
  have n: "unat (5 :: 32 word) \<le> 2 ^ 31" by simp
  from baggy_alloc_then_register [OF n, of libc0 bb0] obtain s where
    s: "size_class 5 = Some s"
    and al: "sc_bb_src_poolalloc libc0 bb0 5 =
         Inr (fst (posix_memalign libc0 (libc_heap bb0) (2 ^ s) (2 ^ s)),
              bb0\<lparr>libc_heap := snd (posix_memalign libc0 (libc_heap bb0) (2 ^ s) (2 ^ s))\<rparr>)"
    and reg: "\<forall>p (st1 :: unit bb_state). p AND mask s = 0 \<longrightarrow>
          (\<exists>st2. internal_register st1 p 5 = Inr st2
             \<and> (\<forall>j < 2 ^ (s - 4). size_table st2 (drop_bit 4 p + of_nat j) = of_nat s)
             \<and> (\<forall>a. unat (a - p) < 2 ^ s \<longrightarrow> size_table st2 (drop_bit 4 a) = of_nat s))"
    by blast
  from s have s4: "s = 4" by (simp add: size_class_5)
  have p: "(0x10000 :: addr) AND mask 4 = 0" by (simp add: mask_eq_exp_minus_1)
  from reg p s4 obtain st2 where
    r: "internal_register bb0 0x10000 5 = Inr st2"
    and t: "\<forall>a. unat (a - 0x10000) < 2 ^ 4 \<longrightarrow> size_table st2 (drop_bit 4 a) = of_nat 4"
    by blast
  have "unat ((0x10000 :: addr) - 0x10000) < 2 ^ 4" by simp
  with t have "size_table st2 (drop_bit 4 0x10000) = of_nat 4" by blast
  then have t0: "size_table st2 (drop_bit 4 0x10000) = 4" by simp
  from al s4 have a: "sc_bb_src_poolalloc libc0 bb0 5 = Inr (Some 0x10000, bb0)"
    by (simp add: libc0_def bb0_def)
  from n s s4 a p r t0 show ?thesis by blast
qed

text \<open>
  C8, as stated, fails. For the baggy engine's reallocation: \<open>__sc_bb_poolrealloc\<close>
  with a \<open>NULL\<close> node registers the new block besides allocating it, so the table
  entry of the block is 4 where the allocation alone leaves 0; and with a 16-byte block
  at \<open>0x20000\<close> and the new size 32 it copies \<open>1 << e = 16\<close> bytes, the size
  recorded for the old block, not 32: the byte at offset 16 of the new block is not the
  byte at offset 16 from the old pointer. For the pool engine: when the new object
  starts 8 bytes behind the old pointer and the new size is 12, \<open>poolrealloc\<close> calls
  \<open>memcpy\<close> on regions that overlap, which is undefined, so no bytes are promised.
\<close>

theorem bb_realloc_counterexample:
  "(case sc_bb_poolrealloc libc0 bb0 0 5 of
      Inr (p, st) \<Rightarrow> p = 0x10000 \<and> size_table st 0x1000 = 4 | Inl e \<Rightarrow> False)
   \<and> sc_bb_poolalloc libc0 bb0 5 = Inr (Some 0x10000, bb0) \<and> size_table bb0 0x1000 = 0
   \<and> (case sc_bb_poolrealloc libc0 bb1 0x20000 32 of
      Inr (p, st) \<Rightarrow> p = 0x10000 \<and> bb_memory st 0x10010 = 0 | Inl e \<Rightarrow> False)
   \<and> bb_memory bb1 0x20010 = 0xAA
   \<and> alloc0 world0 () 12 = (Return (0x2FF8 + 8), world0)
   \<and> poolrealloc alloc0 free0 world0 () 0x2FF8 12 = (Undefined, world0)"
  by (simp add: sc_bb_poolrealloc_def sc_bb_poolalloc_def sc_bb_src_poolalloc_def
      sc_bb_poolregister_def internal_register_def sc_bb_poolunregister_def sc_bb_poolfree_def
      size_class_5 size_class_32 libc0_def bb0_def bb1_def memset_def memcpy_def copy_bytes_def
      regions_overlap_def SLOT_SIZE_def Let_def poolrealloc_def alloc0_def)

text \<open>
  C8, amended to the pool engine. \<open>poolrealloc(P, NULL, n)\<close> is \<open>poolalloc(P, n)\<close>;
  \<open>poolrealloc(P, p, 0)\<close> with \<open>p\<close> not \<open>NULL\<close> frees \<open>p\<close> and returns
  \<open>NULL\<close>; every other call allocates \<open>n\<close> bytes and, when the \<open>n\<close> bytes of the
  new object and the \<open>n\<close> bytes from \<open>p\<close> share no address, copies exactly \<open>n\<close>
  bytes from \<open>p\<close> to the new object (the bytes at offsets below \<open>n\<close> are those at
  \<open>p\<close>, every other byte is left as it was), frees \<open>p\<close> and returns the new pointer.
\<close>

theorem poolrealloc_cases:
  "poolrealloc al fr w P 0 n = al w P n
   \<and> (p \<noteq> 0 \<and> fr w P p = (Return (), w1) \<longrightarrow> poolrealloc al fr w P p 0 = (Return 0, w1))
   \<and> (p \<noteq> 0 \<and> n \<noteq> 0 \<and> al w P n = (Return New, w2)
        \<and> \<not> regions_overlap New p (unat n) \<longrightarrow>
        (\<exists>m. memcpy (memory w2) New p (unat n) = Some m
           \<and> (\<forall>i < unat n. m (New + of_nat i) = memory w2 (p + of_nat i))
           \<and> (\<forall>a. unat n \<le> unat (a - New) \<longrightarrow> m a = memory w2 a)
           \<and> (fr (w2\<lparr>memory := m\<rparr>) P p = (Return (), w3) \<longrightarrow>
                poolrealloc al fr w P p n = (Return New, w3))))"
proof (intro conjI impI)
  show "poolrealloc al fr w P 0 n = al w P n" by (simp add: poolrealloc_def)
next
  assume "p \<noteq> 0 \<and> fr w P p = (Return (), w1)"
  then show "poolrealloc al fr w P p 0 = (Return 0, w1)" by (simp add: poolrealloc_def)
next
  assume h: "p \<noteq> 0 \<and> n \<noteq> 0 \<and> al w P n = (Return New, w2)
        \<and> \<not> regions_overlap New p (unat n)"
  let ?m = "copy_bytes (memory w2) New p (unat n)"
  from h have a: "memcpy (memory w2) New p (unat n) = Some ?m" by (simp add: memcpy_apart)
  have "unat n < 2 ^ LENGTH(32)" by (rule unsigned_less)
  then have "unat n \<le> 2 ^ 32" by simp
  then have b: "\<forall>i < unat n. ?m (New + of_nat i) = memory w2 (p + of_nat i)"
    by (simp add: copy_bytes_copied)
  have c: "\<forall>a. unat n \<le> unat (a - New) \<longrightarrow> ?m a = memory w2 a"
    by (simp add: copy_bytes_elsewhere)
  have d: "fr (w2\<lparr>memory := ?m\<rparr>) P p = (Return (), w3) \<longrightarrow>
                poolrealloc al fr w P p n = (Return New, w3)"
    using h a by (simp add: poolrealloc_def)
  from a b c d show "\<exists>m. memcpy (memory w2) New p (unat n) = Some m
           \<and> (\<forall>i < unat n. m (New + of_nat i) = memory w2 (p + of_nat i))
           \<and> (\<forall>a. unat n \<le> unat (a - New) \<longrightarrow> m a = memory w2 a)
           \<and> (fr (w2\<lparr>memory := m\<rparr>) P p = (Return (), w3) \<longrightarrow>
                poolrealloc al fr w P p n = (Return New, w3))"
    by blast
qed

theorem poolrealloc_cases_witness:
  "poolrealloc alloc0 free0 world0 () 0 4 = alloc0 world0 () 4
   \<and> (0x2000 :: ptr) \<noteq> 0 \<and> free0 world0 () 0x2000 = (Return (), world0)
   \<and> poolrealloc alloc0 free0 world0 () 0x2000 0 = (Return 0, world0)
   \<and> (4 :: 32 word) \<noteq> 0 \<and> alloc0 world0 () 4 = (Return 0x3000, world0)
   \<and> \<not> regions_overlap (0x3000 :: ptr) 0x2000 (unat (4 :: 32 word))
   \<and> (\<exists>m. memcpy (memory world0) 0x3000 0x2000 (unat (4 :: 32 word)) = Some m
        \<and> m (0x3000 + of_nat 1) = 7 \<and> m 0x3004 = memory world0 0x3004
        \<and> poolrealloc alloc0 free0 world0 () 0x2000 4 = (Return 0x3000, world0\<lparr>memory := m\<rparr>))"
proof -
  have h1: "(0x2000 :: ptr) \<noteq> 0 \<and> free0 world0 () 0x2000 = (Return (), world0)"
    by (simp add: free0_def)
  have h2: "(0x2000 :: ptr) \<noteq> 0 \<and> (4 :: 32 word) \<noteq> 0
     \<and> alloc0 world0 () 4 = (Return 0x3000, world0)
     \<and> \<not> regions_overlap (0x3000 :: ptr) 0x2000 (unat (4 :: 32 word))"
    by (simp add: alloc0_def regions_overlap_def)
  have a: "poolrealloc alloc0 free0 world0 () 0 4 = alloc0 world0 () 4"
    using poolrealloc_cases [of alloc0 free0 world0 "()" 4] by blast
  have b: "poolrealloc alloc0 free0 world0 () 0x2000 0 = (Return 0, world0)"
    using poolrealloc_cases [of alloc0 free0 world0 "()" 4 "0x2000" world0] h1 by blast
  let ?m = "copy_bytes (memory world0) 0x3000 0x2000 (unat (4 :: 32 word))"
  let ?w = "world0\<lparr>memory := ?m\<rparr>"
  from poolrealloc_cases [of alloc0 free0 world0 "()" 4 "0x2000" world0 "0x3000" world0 ?w] h2
  obtain m where m: "memcpy (memory world0) 0x3000 0x2000 (unat (4 :: 32 word)) = Some m"
    and d: "\<forall>i < unat (4 :: 32 word). m (0x3000 + of_nat i) = memory world0 (0x2000 + of_nat i)"
    and e: "\<forall>a. unat (4 :: 32 word) \<le> unat (a - 0x3000) \<longrightarrow> m a = memory world0 a"
    and f: "free0 (world0\<lparr>memory := m\<rparr>) () 0x2000 = (Return (), ?w) \<longrightarrow>
        poolrealloc alloc0 free0 world0 () 0x2000 4 = (Return 0x3000, ?w)"
    by blast
  from m h2 have mm: "m = ?m" by (simp add: memcpy_apart)
  then have "free0 (world0\<lparr>memory := m\<rparr>) () 0x2000 = (Return (), ?w)" by (simp add: free0_def)
  with f mm have c: "poolrealloc alloc0 free0 world0 () 0x2000 4 = (Return 0x3000, world0\<lparr>memory := m\<rparr>)"
    by simp
  have "(1::nat) < unat (4 :: 32 word)" by simp
  with d have "m (0x3000 + of_nat 1) = memory world0 (0x2000 + of_nat 1)" by blast
  then have d1: "m (0x3000 + of_nat 1) = 7" by (simp add: world0_def)
  have "unat (4 :: 32 word) \<le> unat ((0x3004 :: ptr) - 0x3000)" by simp
  with e have e1: "m 0x3004 = memory world0 0x3004" by blast
  from a b h1 h2 m c d1 e1 show ?thesis by blast
qed

end
